theory Spec2Isabelle
  imports Main "HOL-Library.Sublist"
begin

section \<open>Data model (src/src/index.ts, lines 10-41)\<close>

text \<open>
  The string unions of the \<open>Todo\<close> interface and of the zod schemas become datatypes.
  The \<open>status\<close> argument of \<open>list_todos\<close> is the enum
  \<^verbatim>\<open>["pending", "in_progress", "completed", "all"]\<close>: a status value or the word "all".
\<close>

datatype status = Pending | In_progress | Completed

datatype priority = Low | Medium | High

datatype status_filter = Only status | All_statuses

text \<open>\<^verbatim>\<open>interface Project\<close> and \<^verbatim>\<open>interface Todo\<close>; the fields carry a prefix because
  both interfaces have an \<open>id\<close> and a \<open>description\<close>.\<close>

record Project =
  p_id :: string
  p_name :: string
  p_description :: string
  p_createdAt :: string
  p_updatedAt :: string

record Todo =
  t_id :: string
  t_projectId :: string
  t_title :: string
  t_description :: string
  t_status :: status
  t_priority :: priority
  t_createdAt :: string
  t_updatedAt :: string

text \<open>
  The key-value namespace holds JSON texts. Every text the program writes is the
  \<^verbatim>\<open>JSON.stringify\<close> of a Project, of a Todo or of an array of ids, and
  \<^verbatim>\<open>JSON.parse\<close> gives that value back, so a stored text is modelled by the value it
  encodes. \<^verbatim>\<open>KV.get\<close> answers \<open>null\<close> for a missing key: \<open>None\<close>.
\<close>

datatype doc = ProjectDoc Project | TodoDoc Todo | IdList "string list"

text \<open>
  The namespace together with the sequence of operations performed on it, oldest first,
  so that the order of reads and writes inside one tool call can be stated.
\<close>

datatype kv_op = Get string | Put string doc | Delete string

record kv =
  store :: "string \<rightharpoonup> doc"
  trace :: "kv_op list"

definition empty_kv :: kv where
  "empty_kv = \<lparr>store = Map.empty, trace = []\<rparr>"

definition KV_get :: "string \<Rightarrow> kv \<Rightarrow> doc option \<times> kv" where
  "KV_get k s = (store s k, s\<lparr>trace := trace s @ [Get k]\<rparr>)"

definition KV_put :: "string \<Rightarrow> doc \<Rightarrow> kv \<Rightarrow> kv" where
  "KV_put k v s = s\<lparr>store := (store s)(k \<mapsto> v), trace := trace s @ [Put k v]\<rparr>"

definition KV_delete :: "string \<Rightarrow> kv \<Rightarrow> kv" where
  "KV_delete k s = s\<lparr>store := (store s)(k := None), trace := trace s @ [Delete k]\<rparr>"

text \<open>
  What a tool call can end with instead of a response: \<open>Error msg\<close> is
  \<^verbatim>\<open>throw new Error(msg)\<close>; \<open>DecodeFault\<close> stands for a stored document that does not
  have the shape of the TypeScript annotation it is parsed at (\<^verbatim>\<open>string[]\<close>,
  \<^verbatim>\<open>Project\<close>, \<^verbatim>\<open>Todo\<close>); \<open>ValidationFault\<close> is a zod schema rejecting the arguments;
  \<open>ToolNotRegistered\<close> is a call of a tool that \<open>init\<close> did not register for this login.
\<close>

datatype fault = Error string | DecodeFault | ValidationFault | ToolNotRegistered

text \<open>
  The \<open>text\<close> of the response. A handler returns either a message or
  \<^verbatim>\<open>JSON.stringify(value, null, 2)\<close>, modelled by the value that is printed.
\<close>

datatype payload =
    Message string
  | ProjectJson Project
  | ProjectsJson "Project list"
  | ProjectTodosJson Project "Todo list"
  | TodoJson Todo
  | TodosJson "Todo list"

type_synonym 'a result = "(fault + 'a) \<times> kv"

text \<open>The values a handler takes from its environment: \<^verbatim>\<open>crypto.randomUUID()\<close> and the
  successive readings of \<^verbatim>\<open>new Date().toISOString()\<close>.\<close>

record env =
  randomUUID :: string
  date1 :: string
  date2 :: string

section \<open>Keys (the template literals of index.ts)\<close>

text \<open>\<^verbatim>\<open>`project:user-${this.props!.login}:list`\<close> (line 54).\<close>

definition project_list_key :: "string \<Rightarrow> string" where
  "project_list_key login = ''project:user-'' @ login @ '':list''"

text \<open>
  \<^verbatim>\<open>"project:user-${this.props!.login}:list"\<close> (lines 189 and 294): a double-quoted
  string, not a template literal, so nothing is interpolated and the key is these
  characters as they stand.
\<close>

definition project_list_literal :: string where
  "project_list_literal = ''project:user-${this.props!.login}:list''"

text \<open>\<^verbatim>\<open>`project:${projectId}:user-${this.props!.login}`\<close> (lines 180, 211, 235, 266, 284, 317, 473).\<close>

definition project_key :: "string \<Rightarrow> string \<Rightarrow> string" where
  "project_key login projectId = ''project:'' @ projectId @ '':user-'' @ login"

text \<open>\<^verbatim>\<open>`project:${projectId}:user-${this.props!.login}:todos`\<close> (lines 61, 98, 344, 424).\<close>

definition todos_key :: "string \<Rightarrow> string \<Rightarrow> string" where
  "todos_key login projectId = ''project:'' @ projectId @ '':user-'' @ login @ '':todos''"

text \<open>\<^verbatim>\<open>`todo:user-${this.props!.login}:${todoId}`\<close> (lines 70, 341, 368, 385, 405, 427, 447).\<close>

definition todo_key :: "string \<Rightarrow> string \<Rightarrow> string" where
  "todo_key login todoId = ''todo:user-'' @ login @ '':'' @ todoId"

section \<open>Array helpers\<close>

text \<open>\<^verbatim>\<open>Array.prototype.indexOf\<close>: the first index holding the value, or -1.\<close>

fun indexOf :: "'a list \<Rightarrow> 'a \<Rightarrow> int" where
  "indexOf [] x = -1"
| "indexOf (y # ys) x =
     (if y = x then 0 else (let r = indexOf ys x in if r = -1 then -1 else r + 1))"

text \<open>\<^verbatim>\<open>xs.splice(index, 1)\<close> for an index in range: drops the element at that index.\<close>

definition splice1 :: "nat \<Rightarrow> 'a list \<Rightarrow> 'a list" where
  "splice1 i xs = take i xs @ drop (Suc i) xs"

text \<open>The idiom of lines 94-97 and 290-293:
  \<^verbatim>\<open>const index = xs.indexOf(x); if (index !== -1) { xs.splice(index, 1); }\<close>\<close>

definition remove_by_index :: "'a \<Rightarrow> 'a list \<Rightarrow> 'a list" where
  "remove_by_index x xs =
     (let index = indexOf xs x in if index \<noteq> -1 then splice1 (nat index) xs else xs)"

section \<open>Private methods (lines 53-99)\<close>

definition getProjectList :: "string \<Rightarrow> kv \<Rightarrow> string list result" where
  "getProjectList login s =
     (case KV_get (project_list_key login) s of
        (None, s1) \<Rightarrow> (Inr [], s1)
      | (Some (IdList l), s1) \<Rightarrow> (Inr l, s1)
      | (Some _, s1) \<Rightarrow> (Inl DecodeFault, s1))"

definition getTodoList :: "string \<Rightarrow> string \<Rightarrow> kv \<Rightarrow> string list result" where
  "getTodoList login projectId s =
     (case KV_get (todos_key login projectId) s of
        (None, s1) \<Rightarrow> (Inr [], s1)
      | (Some (IdList l), s1) \<Rightarrow> (Inr l, s1)
      | (Some _, s1) \<Rightarrow> (Inl DecodeFault, s1))"

text \<open>The loop of \<open>getTodosByProject\<close> (lines 69-74): \<open>todos\<close> is the array built so far.\<close>

fun todos_loop :: "string \<Rightarrow> string list \<Rightarrow> Todo list \<Rightarrow> kv \<Rightarrow> Todo list result" where
  "todos_loop login [] todos s = (Inr todos, s)"
| "todos_loop login (todoId # rest) todos s =
     (case KV_get (todo_key login todoId) s of
        (None, s1) \<Rightarrow> todos_loop login rest todos s1
      | (Some (TodoDoc t), s1) \<Rightarrow> todos_loop login rest (todos @ [t]) s1
      | (Some _, s1) \<Rightarrow> (Inl DecodeFault, s1))"

definition getTodosByProject :: "string \<Rightarrow> string \<Rightarrow> kv \<Rightarrow> Todo list result" where
  "getTodosByProject login projectId s =
     (case getTodoList login projectId s of
        (Inl e, s1) \<Rightarrow> (Inl e, s1)
      | (Inr todoList, s1) \<Rightarrow> todos_loop login todoList [] s1)"

definition deleteTodo :: "string \<Rightarrow> string \<Rightarrow> string \<Rightarrow> kv \<Rightarrow> unit result" where
  "deleteTodo login projectId todoId s =
     (case getTodoList login projectId s of
        (Inl e, s1) \<Rightarrow> (Inl e, s1)
      | (Inr todoList, s1) \<Rightarrow>
          (Inr (), KV_put (todos_key login projectId)
                     (IdList (remove_by_index todoId todoList)) s1))"

section \<open>Tool handlers (lines 162-490)\<close>

definition not_found :: "string \<Rightarrow> string \<Rightarrow> string" where
  "not_found kind ident = kind @ '' with ID '' @ ident @ '' not found''"

definition createProject :: "string \<Rightarrow> string \<Rightarrow> string option \<Rightarrow> env \<Rightarrow> kv \<Rightarrow> payload result" where
  "createProject login name description e s =
     (let projectId = randomUUID e;
          project = \<lparr>p_id = projectId, p_name = name,
                     p_description = (case description of None \<Rightarrow> [] | Some d \<Rightarrow> d),
                     p_createdAt = date1 e, p_updatedAt = date2 e\<rparr>;
          s1 = KV_put (project_key login (p_id project)) (ProjectDoc project) s
      in case getProjectList login s1 of
           (Inl err, s2) \<Rightarrow> (Inl err, s2)
         | (Inr projectList, s2) \<Rightarrow>
             (Inr (ProjectJson project),
              KV_put project_list_literal (IdList (projectList @ [projectId])) s2))"

text \<open>The loop of \<open>get_project_list\<close> (lines 210-215).\<close>

fun projects_loop :: "string \<Rightarrow> string list \<Rightarrow> Project list \<Rightarrow> kv \<Rightarrow> Project list result" where
  "projects_loop login [] projects s = (Inr projects, s)"
| "projects_loop login (projectId # rest) projects s =
     (case KV_get (project_key login projectId) s of
        (None, s1) \<Rightarrow> projects_loop login rest projects s1
      | (Some (ProjectDoc p), s1) \<Rightarrow> projects_loop login rest (projects @ [p]) s1
      | (Some _, s1) \<Rightarrow> (Inl DecodeFault, s1))"

definition get_project_list :: "string \<Rightarrow> kv \<Rightarrow> payload result" where
  "get_project_list login s =
     (case getProjectList login s of
        (Inl err, s1) \<Rightarrow> (Inl err, s1)
      | (Inr projectList, s1) \<Rightarrow>
          (case projects_loop login projectList [] s1 of
             (Inl err, s2) \<Rightarrow> (Inl err, s2)
           | (Inr projects, s2) \<Rightarrow> (Inr (ProjectsJson projects), s2)))"

definition get_project :: "string \<Rightarrow> string \<Rightarrow> kv \<Rightarrow> payload result" where
  "get_project login projectId s =
     (case KV_get (project_key login projectId) s of
        (None, s1) \<Rightarrow> (Inr (Message (not_found ''Project'' projectId)), s1)
      | (Some (ProjectDoc project), s1) \<Rightarrow>
          (case getTodosByProject login projectId s1 of
             (Inl err, s2) \<Rightarrow> (Inl err, s2)
           | (Inr todos, s2) \<Rightarrow> (Inr (ProjectTodosJson project todos), s2))
      | (Some _, s1) \<Rightarrow> (Inl DecodeFault, s1))"

text \<open>The loop of \<open>delete_project\<close> (lines 281-283).\<close>

fun delete_loop :: "string \<Rightarrow> string \<Rightarrow> Todo list \<Rightarrow> kv \<Rightarrow> unit result" where
  "delete_loop login projectId [] s = (Inr (), s)"
| "delete_loop login projectId (todo # rest) s =
     (case deleteTodo login projectId (t_id todo) s of
        (Inl err, s1) \<Rightarrow> (Inl err, s1)
      | (Inr u, s1) \<Rightarrow> delete_loop login projectId rest s1)"

text \<open>\<open>delete_project\<close> only tests \<open>projectData\<close> for presence and never parses it.\<close>

definition delete_project :: "string \<Rightarrow> string \<Rightarrow> kv \<Rightarrow> payload result" where
  "delete_project login projectId s =
     (case KV_get (project_key login projectId) s of
        (None, s1) \<Rightarrow> (Inr (Message (not_found ''Project'' projectId)), s1)
      | (Some projectData, s1) \<Rightarrow>
          (case getTodosByProject login projectId s1 of
             (Inl err, s2) \<Rightarrow> (Inl err, s2)
           | (Inr todos, s2) \<Rightarrow>
               (case delete_loop login projectId todos s2 of
                  (Inl err, s3) \<Rightarrow> (Inl err, s3)
                | (Inr u, s3) \<Rightarrow>
                    (let s4 = KV_delete (project_key login projectId) s3
                     in case getProjectList login s4 of
                          (Inl err, s5) \<Rightarrow> (Inl err, s5)
                        | (Inr projectList, s5) \<Rightarrow>
                            (Inr (Message (''Project with ID '' @ projectId
                                            @ '' and all its todos deleted'')),
                             KV_put project_list_literal
                               (IdList (remove_by_index projectId projectList)) s5)))))"

definition create_todo ::
  "string \<Rightarrow> string \<Rightarrow> string \<Rightarrow> string option \<Rightarrow> priority option \<Rightarrow> env \<Rightarrow> kv \<Rightarrow> payload result" where
  "create_todo login projectId title description priority e s =
     (case KV_get (project_key login projectId) s of
        (None, s1) \<Rightarrow> (Inr (Message (not_found ''Project'' projectId)), s1)
      | (Some projectData, s1) \<Rightarrow>
          (let todoId = randomUUID e;
               todo = \<lparr>t_id = todoId, t_projectId = projectId, t_title = title,
                       t_description = (case description of None \<Rightarrow> [] | Some d \<Rightarrow> d),
                       t_status = Pending,
                       t_priority = (case priority of None \<Rightarrow> Medium | Some p \<Rightarrow> p),
                       t_createdAt = date1 e, t_updatedAt = date2 e\<rparr>;
               s2 = KV_put (todo_key login todoId) (TodoDoc todo) s1
           in case getTodoList login projectId s2 of
                (Inl err, s3) \<Rightarrow> (Inl err, s3)
              | (Inr todoList, s3) \<Rightarrow>
                  (Inr (TodoJson todo),
                   KV_put (todos_key login projectId) (IdList (todoList @ [todoId])) s3)))"

definition update_todo ::
  "string \<Rightarrow> string \<Rightarrow> string \<Rightarrow> string option \<Rightarrow> status option \<Rightarrow> priority option \<Rightarrow> env \<Rightarrow> kv
     \<Rightarrow> payload result" where
  "update_todo login todoId title description status priority e s =
     (case KV_get (todo_key login todoId) s of
        (None, s1) \<Rightarrow> (Inr (Message (not_found ''Todo'' todoId)), s1)
      | (Some (TodoDoc todo), s1) \<Rightarrow>
          (let todo1 = todo\<lparr>t_title := title\<rparr>;
               todo2 = todo1\<lparr>t_description :=
                          (case description of None \<Rightarrow> t_description todo1 | Some d \<Rightarrow> d)\<rparr>;
               todo3 = todo2\<lparr>t_status :=
                          (case status of None \<Rightarrow> t_status todo2 | Some x \<Rightarrow> x)\<rparr>;
               todo4 = todo3\<lparr>t_priority :=
                          (case priority of None \<Rightarrow> t_priority todo3 | Some p \<Rightarrow> p)\<rparr>;
               todo5 = todo4\<lparr>t_updatedAt := date1 e\<rparr>
           in (Inr (TodoJson todo5), KV_put (todo_key login todoId) (TodoDoc todo5) s1))
      | (Some _, s1) \<Rightarrow> (Inl DecodeFault, s1))"

text \<open>\<open>delete_todo\<close> removes the id with \<^verbatim>\<open>todoList.filter((id) => id !== todoId)\<close>.\<close>

definition delete_todo :: "string \<Rightarrow> string \<Rightarrow> kv \<Rightarrow> payload result" where
  "delete_todo login todoId s =
     (case KV_get (todo_key login todoId) s of
        (None, s1) \<Rightarrow> (Inl (Error (not_found ''Todo'' todoId)), s1)
      | (Some (TodoDoc todo), s1) \<Rightarrow>
          (case getTodoList login (t_projectId todo) s1 of
             (Inl err, s2) \<Rightarrow> (Inl err, s2)
           | (Inr todoList, s2) \<Rightarrow>
               (let updatedTodoList = filter (\<lambda>i. i \<noteq> todoId) todoList;
                    s3 = KV_put (todos_key login (t_projectId todo)) (IdList updatedTodoList) s2;
                    s4 = KV_delete (todo_key login todoId) s3
                in (Inr (Message (''Todo with ID '' @ todoId @ '' deleted'')), s4)))
      | (Some _, s1) \<Rightarrow> (Inl DecodeFault, s1))"

definition get_todo :: "string \<Rightarrow> string \<Rightarrow> kv \<Rightarrow> payload result" where
  "get_todo login todoId s =
     (case KV_get (todo_key login todoId) s of
        (None, s1) \<Rightarrow> (Inl (Error (not_found ''Todo'' todoId)), s1)
      | (Some (TodoDoc todo), s1) \<Rightarrow> (Inr (TodoJson todo), s1)
      | (Some _, s1) \<Rightarrow> (Inl DecodeFault, s1))"

text \<open>\<^verbatim>\<open>if (status && status !== "all")\<close>: an omitted status and "all" do not filter.\<close>

definition list_todos :: "string \<Rightarrow> string \<Rightarrow> status_filter option \<Rightarrow> kv \<Rightarrow> payload result" where
  "list_todos login projectId status s =
     (case KV_get (project_key login projectId) s of
        (None, s1) \<Rightarrow> (Inl (Error (not_found ''Project'' projectId)), s1)
      | (Some projectData, s1) \<Rightarrow>
          (case getTodosByProject login projectId s1 of
             (Inl err, s2) \<Rightarrow> (Inl err, s2)
           | (Inr todos, s2) \<Rightarrow>
               (case status of
                  Some (Only st) \<Rightarrow> (Inr (TodosJson (filter (\<lambda>todo. t_status todo = st) todos)), s2)
                | _ \<Rightarrow> (Inr (TodosJson todos), s2))))"

section \<open>Tool registration and dispatch (lines 36-41, 101-132)\<close>

definition ALLOWED_USERNAMES :: "string set" where
  "ALLOWED_USERNAMES = {''hubiao1688'', ''ermao1688''}"

text \<open>The project and todo tools; the arguments are those of the zod schemas, an optional
  argument being an \<open>option\<close>. The tools \<open>add\<close>, \<open>userInfoOctokit\<close> and \<open>generateImage\<close> never
  touch the namespace and are left out.\<close>

datatype tool_call =
    CreateProject string "string option"
  | GetProjectList
  | GetProject string
  | DeleteProject string
  | CreateTodo string string "string option" "priority option"
  | UpdateTodo string string "string option" "status option" "priority option"
  | DeleteTodo string
  | GetTodo string
  | ListTodos string "status_filter option"

text \<open>The schemas constrain only the titles beyond their types: \<^verbatim>\<open>z.string().min(1)\<close>.\<close>

fun valid_args :: "tool_call \<Rightarrow> bool" where
  "valid_args (CreateTodo projectId title description priority) = (title \<noteq> [])"
| "valid_args (UpdateTodo todoId title description status priority) = (title \<noteq> [])"
| "valid_args c = True"

fun handler :: "string \<Rightarrow> tool_call \<Rightarrow> env \<Rightarrow> kv \<Rightarrow> payload result" where
  "handler login (CreateProject name description) e s = createProject login name description e s"
| "handler login GetProjectList e s = get_project_list login s"
| "handler login (GetProject projectId) e s = get_project login projectId s"
| "handler login (DeleteProject projectId) e s = delete_project login projectId s"
| "handler login (CreateTodo projectId title description priority) e s =
     create_todo login projectId title description priority e s"
| "handler login (UpdateTodo todoId title description status priority) e s =
     update_todo login todoId title description status priority e s"
| "handler login (DeleteTodo todoId) e s = delete_todo login todoId s"
| "handler login (GetTodo todoId) e s = get_todo login todoId s"
| "handler login (ListTodos projectId status) e s = list_todos login projectId status s"

text \<open>A call by the session of \<open>login\<close>: the tools exist only when
  \<^verbatim>\<open>ALLOWED_USERNAMES.has(this.props!.login)\<close>, and the arguments are validated before
  the handler runs.\<close>

definition call_tool :: "string \<Rightarrow> tool_call \<Rightarrow> env \<Rightarrow> kv \<Rightarrow> payload result" where
  "call_tool login c e s =
     (if login \<in> ALLOWED_USERNAMES
      then (if valid_args c then handler login c e s else (Inl ValidationFault, s))
      else (Inl ToolNotRegistered, s))"

text \<open>A finite sequence of tool calls, each by some login with some environment.\<close>

fun run :: "(string \<times> tool_call \<times> env) list \<Rightarrow> kv \<Rightarrow> kv" where
  "run [] s = s"
| "run ((login, c, e) # cs) s = run cs (snd (call_tool login c e s))"

section \<open>A sample session\<close>

text \<open>The scenario of the specification: project "Launch" with one todo "Write spec" of
  high priority, by a login of the allow-list.\<close>

definition sample_login :: string where
  "sample_login = ''ermao1688''"

definition project_env :: env where
  "project_env = \<lparr>randomUUID = ''p-1'', date1 = ''2025-01-01T00:00:00.000Z'',
                   date2 = ''2025-01-01T00:00:00.001Z''\<rparr>"

definition todo_env :: env where
  "todo_env = \<lparr>randomUUID = ''t-1'', date1 = ''2025-01-02T00:00:00.000Z'',
                date2 = ''2025-01-02T00:00:00.000Z''\<rparr>"

definition with_project :: kv where
  "with_project =
     snd (call_tool sample_login (CreateProject ''Launch'' (Some ''v1'')) project_env empty_kv)"

definition with_todo :: kv where
  "with_todo =
     snd (call_tool sample_login (CreateTodo ''p-1'' ''Write spec'' None (Some High))
            todo_env with_project)"

text \<open>A namespace whose Todo Index lists the same id twice.\<close>

definition twice_listed :: kv where
  "twice_listed =
     \<lparr>store = [todo_key sample_login ''t-1'' \<mapsto>
                  TodoDoc \<lparr>t_id = ''t-1'', t_projectId = ''p-1'', t_title = ''Write spec'',
                           t_description = [], t_status = Pending, t_priority = High,
                           t_createdAt = ''2025-01-02T00:00:00.000Z'',
                           t_updatedAt = ''2025-01-02T00:00:00.000Z''\<rparr>,
               todos_key sample_login ''p-1'' \<mapsto> IdList [''t-1'', ''t-2'', ''t-1'']],
      trace = []\<rparr>"

text \<open>The same session with two more todos, the last one completed: the statuses are
  pending, pending, completed in creation order.\<close>

definition three_todos :: kv where
  "three_todos =
     (let a = \<lparr>randomUUID = ''t-2'', date1 = ''2025-01-03T00:00:00.000Z'',
                date2 = ''2025-01-03T00:00:00.000Z''\<rparr>;
          b = \<lparr>randomUUID = ''t-3'', date1 = ''2025-01-04T00:00:00.000Z'',
                date2 = ''2025-01-04T00:00:00.000Z''\<rparr>;
          s1 = snd (call_tool sample_login (CreateTodo ''p-1'' ''Review'' None None) a with_todo);
          s2 = snd (call_tool sample_login (CreateTodo ''p-1'' ''Plan'' (Some ''first'') (Some Low)) b s1)
      in snd (call_tool sample_login (UpdateTodo ''t-3'' ''Plan'' None (Some Completed) None) b s2))"

section \<open>Specification vocabulary\<close>

text \<open>
  The todos that the ids of an index resolve to, in index order: an id whose Todo record
  is missing contributes nothing. \<open>todo_or_absent\<close> says that the key of an id holds a
  Todo record or nothing.
\<close>

definition listed_todos :: "(string \<rightharpoonup> doc) \<Rightarrow> string \<Rightarrow> string list \<Rightarrow> Todo list" where
  "listed_todos m login ids =
     concat (map (\<lambda>i. case m (todo_key login i) of Some (TodoDoc t) \<Rightarrow> [t] | _ \<Rightarrow> []) ids)"

definition todo_or_absent :: "(string \<rightharpoonup> doc) \<Rightarrow> string \<Rightarrow> string \<Rightarrow> bool" where
  "todo_or_absent m login i =
     (case m (todo_key login i) of None \<Rightarrow> True | Some (TodoDoc t) \<Rightarrow> True | Some _ \<Rightarrow> False)"

text \<open>
  The keys of a login: \<open>owned_key\<close> are the record keys and Todo Index keys built from the
  login, \<open>visible_to\<close> adds the Project Index key that \<open>getProjectList\<close> reads.
  \<open>permitted\<close> says which operations a call on behalf of a login may perform: reads of
  visible keys, writes of owned keys and of the uninterpolated Project Index key, deletes
  of owned keys. \<open>steps_by login s s'\<close>: from \<open>s\<close> to \<open>s'\<close> the trace grew by permitted
  operations only and every other key kept its value.
\<close>

definition owned_key :: "string \<Rightarrow> string \<Rightarrow> bool" where
  "owned_key login k \<longleftrightarrow>
     (\<exists>x. k = project_key login x) \<or> (\<exists>x. k = todos_key login x) \<or> (\<exists>x. k = todo_key login x)"

definition visible_to :: "string \<Rightarrow> string \<Rightarrow> bool" where
  "visible_to login k \<longleftrightarrow> owned_key login k \<or> k = project_list_key login"

fun permitted :: "string \<Rightarrow> kv_op \<Rightarrow> bool" where
  "permitted login (Get k) = visible_to login k"
| "permitted login (Put k v) = (owned_key login k \<or> k = project_list_literal)"
| "permitted login (Delete k) = owned_key login k"

definition steps_by :: "string \<Rightarrow> kv \<Rightarrow> kv \<Rightarrow> bool" where
  "steps_by login s s' \<longleftrightarrow>
     (\<forall>k. \<not> owned_key login k \<and> k \<noteq> project_list_literal \<longrightarrow> store s' k = store s k)
     \<and> (\<exists>ops. trace s' = trace s @ ops \<and> (\<forall>op \<in> set ops. permitted login op))"

text \<open>The part of a key after its last colon.\<close>

definition last_segment :: "string \<Rightarrow> string" where
  "last_segment k = rev (takeWhile (\<lambda>c. c \<noteq> CHR '':'') (rev k))"

text \<open>No login of the allow-list has a value or a write under the Project Index key that
  \<open>getProjectList\<close> reads.\<close>

definition index_unwritten :: "kv \<Rightarrow> bool" where
  "index_unwritten s \<longleftrightarrow>
     (\<forall>login \<in> ALLOWED_USERNAMES.
        store s (project_list_key login) = None
        \<and> (\<forall>v. Put (project_list_key login) v \<notin> set (trace s)))"

text \<open>A session of two logins of the allow-list and one login outside it.\<close>

definition two_owner_session :: "(string \<times> tool_call \<times> env) list" where
  "two_owner_session =
     [(''ermao1688'', CreateProject ''Launch'' (Some ''v1''), project_env),
      (''hubiao1688'', CreateProject ''Other'' None,
         \<lparr>randomUUID = ''p-2'', date1 = ''2025-02-01T00:00:00.000Z'',
           date2 = ''2025-02-01T00:00:00.000Z''\<rparr>),
      (''ermao1688'', CreateTodo ''p-1'' ''Write spec'' None (Some High), todo_env),
      (''mallory'', CreateProject ''Mine'' None, project_env),
      (''ermao1688'', DeleteProject ''p-1'', project_env)]"

text \<open>
  Two namespaces look the same to a login when they agree on every key visible to it.
  \<open>op_key\<close> is the key an operation targets; \<open>calls_of login\<close> keeps the calls made by
  that login and drops everybody else's.
\<close>

definition same_view :: "string \<Rightarrow> kv \<Rightarrow> kv \<Rightarrow> bool" where
  "same_view login s s' \<longleftrightarrow> (\<forall>k. visible_to login k \<longrightarrow> store s k = store s' k)"

fun op_key :: "kv_op \<Rightarrow> string" where
  "op_key (Get k) = k"
| "op_key (Put k v) = k"
| "op_key (Delete k) = k"

definition calls_of :: "string \<Rightarrow> (string \<times> tool_call \<times> env) list \<Rightarrow> (string \<times> tool_call \<times> env) list" where
  "calls_of login calls = filter (\<lambda>call. fst call = login) calls"

text \<open>A session in which one login of the allow-list creates a project and a todo, the
  other creates a project of its own, and a login outside the allow-list tries to.\<close>

definition shared_session :: "(string \<times> tool_call \<times> env) list" where
  "shared_session =
     [(''ermao1688'', CreateProject ''Launch'' (Some ''v1''), project_env),
      (''ermao1688'', CreateTodo ''p-1'' ''Write spec'' None (Some High), todo_env),
      (''mallory'', CreateProject ''Mine'' None, project_env)]"

text \<open>
  A namespace is well shaped when, for every login of the allow-list, each record key
  holds a record of its kind or nothing and each index key holds a list of ids or
  nothing: the shapes of the TypeScript annotations the documents are parsed at.
\<close>

fun is_project :: "doc option \<Rightarrow> bool" where
  "is_project None = True"
| "is_project (Some (ProjectDoc p)) = True"
| "is_project (Some d) = False"

fun is_todo :: "doc option \<Rightarrow> bool" where
  "is_todo None = True"
| "is_todo (Some (TodoDoc t)) = True"
| "is_todo (Some d) = False"

fun is_ids :: "doc option \<Rightarrow> bool" where
  "is_ids None = True"
| "is_ids (Some (IdList l)) = True"
| "is_ids (Some d) = False"

definition well_shaped :: "kv \<Rightarrow> bool" where
  "well_shaped s \<longleftrightarrow>
     (\<forall>login \<in> ALLOWED_USERNAMES.
        (\<forall>x. is_project (store s (project_key login x)))
        \<and> (\<forall>x. is_ids (store s (todos_key login x)))
        \<and> (\<forall>x. is_todo (store s (todo_key login x)))
        \<and> is_ids (store s (project_list_key login)))"

section \<open>Unfolding rules\<close>

lemmas kv_defs = KV_get_def KV_put_def KV_delete_def

lemmas key_defs =
  project_key_def todo_key_def todos_key_def project_list_key_def project_list_literal_def

lemmas sample_defs =
  sample_login_def project_env_def todo_env_def with_project_def with_todo_def
  twice_listed_def empty_kv_def call_tool_def ALLOWED_USERNAMES_def

lemmas tool_defs =
  createProject_def get_project_list_def get_project_def delete_project_def create_todo_def
  update_todo_def delete_todo_def get_todo_def list_todos_def getProjectList_def
  getTodoList_def getTodosByProject_def deleteTodo_def not_found_def

section \<open>Removal from an index\<close>

lemma indexOf_notin: "x \<notin> set xs \<Longrightarrow> indexOf xs x = -1"
  by (induction xs) auto

lemma indexOf_in: "x \<in> set xs \<Longrightarrow> 0 \<le> indexOf xs x"
  by (induction xs) (auto simp: Let_def)

lemma remove_by_index_remove1: "remove_by_index x xs = remove1 x xs"
proof (induction xs)
  case Nil
  show ?case by (simp add: remove_by_index_def splice1_def)
next
  case (Cons y ys)
  show ?case
  proof (cases "y = x")
    case True
    then show ?thesis by (simp add: remove_by_index_def splice1_def)
  next
    case neq: False
    show ?thesis
    proof (cases "x \<in> set ys")
      case True
      then have pos: "0 \<le> indexOf ys x" by (rule indexOf_in)
      then have "nat (indexOf ys x + 1) = Suc (nat (indexOf ys x))" by simp
      with Cons neq pos show ?thesis
        by (simp add: remove_by_index_def splice1_def Let_def)
    next
      case False
      with neq show ?thesis
        by (simp add: remove_by_index_def Let_def indexOf_notin remove1_idem)
    qed
  qed
qed

lemma count_list_remove1: "count_list (remove1 x xs) x = count_list xs x - 1"
  by (induction xs) auto

lemma todo_key_neq_todos_key: "todo_key login todoId \<noteq> todos_key login' projectId"
  by (simp add: key_defs)

text \<open>
  C8 (as amended). The per-todo removal of the cascade, \<open>deleteTodo\<close>, rewrites the Todo
  Index without the first occurrence of the id only, so the id is listed once less than
  before; \<open>delete_todo\<close> rewrites the Todo Index without any occurrence of the id.
\<close>

theorem index_removal_occurrences:
  "(store s (todos_key login projectId) = Some (IdList l) \<longrightarrow>
      store (snd (deleteTodo login projectId todoId s)) (todos_key login projectId)
        = Some (IdList (remove1 todoId l))
      \<and> count_list (remove1 todoId l) todoId = count_list l todoId - 1)
   \<and> (store s (todo_key login todoId) = Some (TodoDoc todo)
        \<and> store s (todos_key login (t_projectId todo)) = Some (IdList l) \<longrightarrow>
      store (snd (delete_todo login todoId s)) (todos_key login (t_projectId todo))
        = Some (IdList (filter (\<lambda>i. i \<noteq> todoId) l))
      \<and> count_list (filter (\<lambda>i. i \<noteq> todoId) l) todoId = 0)"
proof (intro conjI impI)
  assume "store s (todos_key login projectId) = Some (IdList l)"
  then show "store (snd (deleteTodo login projectId todoId s)) (todos_key login projectId)
               = Some (IdList (remove1 todoId l))"
    by (simp add: deleteTodo_def getTodoList_def kv_defs remove_by_index_remove1)
next
  show "count_list (remove1 todoId l) todoId = count_list l todoId - 1"
    by (rule count_list_remove1)
next
  assume "store s (todo_key login todoId) = Some (TodoDoc todo)
            \<and> store s (todos_key login (t_projectId todo)) = Some (IdList l)"
  then show "store (snd (delete_todo login todoId s)) (todos_key login (t_projectId todo))
               = Some (IdList (filter (\<lambda>i. i \<noteq> todoId) l))"
    using todo_key_neq_todos_key [of login todoId login "t_projectId todo"]
    by (simp add: delete_todo_def getTodoList_def kv_defs Let_def)
next
  show "count_list (filter (\<lambda>i. i \<noteq> todoId) l) todoId = 0"
    by (simp add: count_list_0_iff)
qed

theorem index_removal_occurrences_witness:
  "store (snd (deleteTodo sample_login ''p-1'' ''t-1'' twice_listed))
     (todos_key sample_login ''p-1'') = Some (IdList [''t-2'', ''t-1''])
   \<and> store (snd (delete_todo sample_login ''t-1'' twice_listed))
       (todos_key sample_login ''p-1'') = Some (IdList [''t-2''])"
  using index_removal_occurrences [of twice_listed sample_login "''p-1''"
      "[''t-1'', ''t-2'', ''t-1'']" "''t-1''"
      "\<lparr>t_id = ''t-1'', t_projectId = ''p-1'', t_title = ''Write spec'',
        t_description = [], t_status = Pending, t_priority = High,
        t_createdAt = ''2025-01-02T00:00:00.000Z'',
        t_updatedAt = ''2025-01-02T00:00:00.000Z''\<rparr>"]
  by (simp add: twice_listed_def sample_login_def key_defs)

text \<open>
  C8 as stated fails for \<open>delete_todo\<close>: with the id listed twice, one \<open>delete_todo\<close> leaves
  no occurrence in the Todo Index.
\<close>

theorem delete_todo_removes_all_counterexample:
  "store twice_listed (todos_key sample_login ''p-1'') = Some (IdList [''t-1'', ''t-2'', ''t-1''])
   \<and> store (snd (delete_todo sample_login ''t-1'' twice_listed))
       (todos_key sample_login ''p-1'') = Some (IdList [''t-2''])"
  by (simp add: twice_listed_def sample_login_def delete_todo_def getTodoList_def kv_defs
      key_defs Let_def)

section \<open>The cascade of \<open>delete_project\<close>\<close>

text \<open>
  C1. On the sample session, \<open>delete_project\<close> succeeds and \<open>list_todos\<close> on the project
  then raises the not-found fault, but \<open>get_todo\<close> on the todo that was listed still
  returns the record: the cascade only rewrites the Todo Index (\<open>deleteTodo\<close>), and
  neither the Todo record nor the Todo Index key is deleted.
\<close>

theorem delete_project_keeps_todo_record:
  "fst (call_tool sample_login (DeleteProject ''p-1'') project_env with_todo)
     = Inr (Message ''Project with ID p-1 and all its todos deleted'')
   \<and> fst (call_tool sample_login (ListTodos ''p-1'' None) project_env
            (snd (call_tool sample_login (DeleteProject ''p-1'') project_env with_todo)))
     = Inl (Error ''Project with ID p-1 not found'')
   \<and> fst (call_tool sample_login (GetTodo ''t-1'') project_env
            (snd (call_tool sample_login (DeleteProject ''p-1'') project_env with_todo)))
     = Inr (TodoJson \<lparr>t_id = ''t-1'', t_projectId = ''p-1'', t_title = ''Write spec'',
                      t_description = [], t_status = Pending, t_priority = High,
                      t_createdAt = ''2025-01-02T00:00:00.000Z'',
                      t_updatedAt = ''2025-01-02T00:00:00.000Z''\<rparr>)
   \<and> store (snd (call_tool sample_login (DeleteProject ''p-1'') project_env with_todo))
        (todos_key sample_login ''p-1'') = Some (IdList [])"
  by (simp add: sample_defs tool_defs kv_defs key_defs remove_by_index_remove1 Let_def)

section \<open>The Project Index\<close>

text \<open>
  C2. On the empty namespace \<open>createProject\<close> writes the Project record and then writes
  the id list under the uninterpolated key, and the following \<open>get_project_list\<close> returns
  the empty sequence: the created project is not in it.
\<close>

theorem createProject_not_listed:
  "trace with_project =
     [Put (project_key sample_login ''p-1'')
        (ProjectDoc \<lparr>p_id = ''p-1'', p_name = ''Launch'', p_description = ''v1'',
                     p_createdAt = ''2025-01-01T00:00:00.000Z'',
                     p_updatedAt = ''2025-01-01T00:00:00.001Z''\<rparr>),
      Get (project_list_key sample_login),
      Put ''project:user-${this.props!.login}:list'' (IdList [''p-1''])]
   \<and> fst (call_tool sample_login GetProjectList project_env with_project)
     = Inr (ProjectsJson [])"
  by (simp add: sample_defs tool_defs kv_defs key_defs Let_def)

section \<open>Not-found signalling\<close>

text \<open>
  C7. When the referenced todo is absent, \<open>delete_todo\<close> and \<open>get_todo\<close> raise a fault
  while \<open>update_todo\<close> returns a normal response carrying the not-found message; when the
  referenced project is absent, \<open>list_todos\<close> raises a fault while \<open>get_project\<close>,
  \<open>delete_project\<close> and \<open>create_todo\<close> return a normal response carrying the message. In
  every case the call performed the one read and nothing else, so the namespace keeps
  its contents.
\<close>

theorem not_found_signalling:
  "(store s (todo_key login todoId) = None \<longrightarrow>
      delete_todo login todoId s
        = (Inl (Error (''Todo with ID '' @ todoId @ '' not found'')),
           s\<lparr>trace := trace s @ [Get (todo_key login todoId)]\<rparr>)
      \<and> get_todo login todoId s
        = (Inl (Error (''Todo with ID '' @ todoId @ '' not found'')),
           s\<lparr>trace := trace s @ [Get (todo_key login todoId)]\<rparr>)
      \<and> update_todo login todoId title description status priority e s
        = (Inr (Message (''Todo with ID '' @ todoId @ '' not found'')),
           s\<lparr>trace := trace s @ [Get (todo_key login todoId)]\<rparr>))
   \<and> (store s (project_key login projectId) = None \<longrightarrow>
      list_todos login projectId filt s
        = (Inl (Error (''Project with ID '' @ projectId @ '' not found'')),
           s\<lparr>trace := trace s @ [Get (project_key login projectId)]\<rparr>)
      \<and> get_project login projectId s
        = (Inr (Message (''Project with ID '' @ projectId @ '' not found'')),
           s\<lparr>trace := trace s @ [Get (project_key login projectId)]\<rparr>)
      \<and> delete_project login projectId s
        = (Inr (Message (''Project with ID '' @ projectId @ '' not found'')),
           s\<lparr>trace := trace s @ [Get (project_key login projectId)]\<rparr>)
      \<and> create_todo login projectId title description priority e s
        = (Inr (Message (''Project with ID '' @ projectId @ '' not found'')),
           s\<lparr>trace := trace s @ [Get (project_key login projectId)]\<rparr>))"
  by (simp add: delete_todo_def get_todo_def update_todo_def list_todos_def get_project_def
      delete_project_def create_todo_def not_found_def KV_get_def)

theorem not_found_signalling_witness:
  "fst (delete_todo sample_login ''t-9'' with_todo) = Inl (Error ''Todo with ID t-9 not found'')
   \<and> fst (get_project sample_login ''p-9'' with_todo)
       = Inr (Message ''Project with ID p-9 not found'')
   \<and> store (snd (delete_project sample_login ''p-9'' with_todo)) = store with_todo"
proof -
  have a: "store with_todo (todo_key sample_login ''t-9'') = None"
    by (simp add: sample_defs tool_defs kv_defs key_defs Let_def)
  have b: "store with_todo (project_key sample_login ''p-9'') = None"
    by (simp add: sample_defs tool_defs kv_defs key_defs Let_def)
  show ?thesis
    using a b not_found_signalling [of with_todo sample_login "''t-9''" "''x''" None None None
        project_env "''p-9''" None]
    by simp
qed

section \<open>\<open>update_todo\<close>\<close>

lemma todo_key_neq_project_list_key: "todo_key login todoId \<noteq> project_list_key login'"
  by (simp add: key_defs)

lemma todo_key_neq_literal: "todo_key login todoId \<noteq> project_list_literal"
  by (simp add: key_defs)

lemma todo_key_neq_project_key: "todo_key login todoId \<noteq> project_key login' projectId"
  by (simp add: key_defs)

text \<open>
  C4. For an existing todo, \<open>update_todo\<close> returns and stores the prior record with the
  title replaced and \<open>updatedAt\<close> refreshed; description, status and priority are replaced
  when supplied and keep their prior value otherwise; id, projectId and createdAt keep
  their prior values. The call reads the Todo record and writes it back and performs no
  other operation, and the key written is not an index key.
\<close>

theorem update_todo_partial:
  assumes "store s (todo_key login todoId) = Some (TodoDoc todo)"
  shows "\<exists>todo'.
      update_todo login todoId title description status priority e s
        = (Inr (TodoJson todo'),
           s\<lparr>store := (store s)(todo_key login todoId \<mapsto> TodoDoc todo'),
             trace := trace s @ [Get (todo_key login todoId),
                                 Put (todo_key login todoId) (TodoDoc todo')]\<rparr>)
      \<and> t_title todo' = title
      \<and> t_updatedAt todo' = date1 e
      \<and> t_description todo' = (case description of None \<Rightarrow> t_description todo | Some d \<Rightarrow> d)
      \<and> t_status todo' = (case status of None \<Rightarrow> t_status todo | Some x \<Rightarrow> x)
      \<and> t_priority todo' = (case priority of None \<Rightarrow> t_priority todo | Some p \<Rightarrow> p)
      \<and> t_id todo' = t_id todo
      \<and> t_projectId todo' = t_projectId todo
      \<and> t_createdAt todo' = t_createdAt todo
      \<and> todo_key login todoId \<noteq> todos_key login' projectId
      \<and> todo_key login todoId \<noteq> project_list_key login'
      \<and> todo_key login todoId \<noteq> project_list_literal"
  using assms todo_key_neq_todos_key [of login todoId login' projectId]
    todo_key_neq_project_list_key [of login todoId login']
    todo_key_neq_literal [of login todoId]
  by (cases description; cases status; cases priority)
     (simp_all add: update_todo_def kv_defs Let_def)

theorem update_todo_partial_witness:
  "store with_todo (todo_key sample_login ''t-1'') \<noteq> None
   \<and> fst (update_todo sample_login ''t-1'' ''Write the spec'' None None None project_env with_todo)
       = Inr (TodoJson \<lparr>t_id = ''t-1'', t_projectId = ''p-1'', t_title = ''Write the spec'',
                        t_description = [], t_status = Pending, t_priority = High,
                        t_createdAt = ''2025-01-02T00:00:00.000Z'',
                        t_updatedAt = ''2025-01-01T00:00:00.000Z''\<rparr>)"
proof -
  have a: "store with_todo (todo_key sample_login ''t-1'')
             = Some (TodoDoc \<lparr>t_id = ''t-1'', t_projectId = ''p-1'', t_title = ''Write spec'',
                        t_description = [], t_status = Pending, t_priority = High,
                        t_createdAt = ''2025-01-02T00:00:00.000Z'',
                        t_updatedAt = ''2025-01-02T00:00:00.000Z''\<rparr>)"
    by (simp add: sample_defs tool_defs kv_defs key_defs Let_def)
  from update_todo_partial [OF a, of "''Write the spec''" None None None project_env]
  obtain todo' where
    r: "update_todo sample_login ''t-1'' ''Write the spec'' None None None project_env with_todo
        = (Inr (TodoJson todo'),
           with_todo\<lparr>store := (store with_todo)(todo_key sample_login ''t-1'' \<mapsto> TodoDoc todo'),
             trace := trace with_todo @ [Get (todo_key sample_login ''t-1''),
                                 Put (todo_key sample_login ''t-1'') (TodoDoc todo')]\<rparr>)"
    and f: "t_title todo' = ''Write the spec''" "t_updatedAt todo' = date1 project_env"
      "t_description todo' = []" "t_status todo' = Pending" "t_priority todo' = High"
      "t_id todo' = ''t-1''" "t_projectId todo' = ''p-1''"
      "t_createdAt todo' = ''2025-01-02T00:00:00.000Z''"
    by auto
  have "todo' = \<lparr>t_id = ''t-1'', t_projectId = ''p-1'', t_title = ''Write the spec'',
                        t_description = [], t_status = Pending, t_priority = High,
                        t_createdAt = ''2025-01-02T00:00:00.000Z'',
                        t_updatedAt = ''2025-01-01T00:00:00.000Z''\<rparr>"
    using f by (cases todo') (simp add: project_env_def)
  with r a show ?thesis by simp
qed

section \<open>\<open>create_todo\<close>\<close>

text \<open>
  C5. Without a Project record under the key of this login and project id, \<open>create_todo\<close>
  answers the not-found message after its one read and writes nothing. With one (and a
  Todo Index that is absent or a list of ids) it returns the Todo whose id is the
  generated one, whose status is pending, whose priority is the argument or medium when
  unset and whose timestamps are the clock readings; it writes the Todo record first and
  then the Todo Index with the id appended.
\<close>

theorem create_todo_behaviour:
  "(store s (project_key login projectId) = None \<longrightarrow>
      create_todo login projectId title description priority e s
        = (Inr (Message (''Project with ID '' @ projectId @ '' not found'')),
           s\<lparr>trace := trace s @ [Get (project_key login projectId)]\<rparr>))
   \<and> (store s (project_key login projectId) = Some projectData
        \<and> (store s (todos_key login projectId) = None \<and> l = []
             \<or> store s (todos_key login projectId) = Some (IdList l)) \<longrightarrow>
      (\<exists>todo.
         todo = \<lparr>t_id = randomUUID e, t_projectId = projectId, t_title = title,
                 t_description = (case description of None \<Rightarrow> [] | Some d \<Rightarrow> d),
                 t_status = Pending,
                 t_priority = (case priority of None \<Rightarrow> Medium | Some p \<Rightarrow> p),
                 t_createdAt = date1 e, t_updatedAt = date2 e\<rparr>
         \<and> fst (create_todo login projectId title description priority e s) = Inr (TodoJson todo)
         \<and> store (snd (create_todo login projectId title description priority e s))
             = (store s)(todo_key login (randomUUID e) \<mapsto> TodoDoc todo,
                         todos_key login projectId \<mapsto> IdList (l @ [randomUUID e]))
         \<and> trace (snd (create_todo login projectId title description priority e s))
             = trace s @ [Get (project_key login projectId),
                          Put (todo_key login (randomUUID e)) (TodoDoc todo),
                          Get (todos_key login projectId),
                          Put (todos_key login projectId) (IdList (l @ [randomUUID e]))]))"
  using todo_key_neq_todos_key [of login "randomUUID e" login projectId]
  by (auto simp add: create_todo_def getTodoList_def not_found_def kv_defs Let_def)

theorem create_todo_behaviour_witness:
  "fst (create_todo sample_login ''p-1'' ''Write spec'' None None todo_env with_project)
     = Inr (TodoJson \<lparr>t_id = ''t-1'', t_projectId = ''p-1'', t_title = ''Write spec'',
                      t_description = [], t_status = Pending, t_priority = Medium,
                      t_createdAt = ''2025-01-02T00:00:00.000Z'',
                      t_updatedAt = ''2025-01-02T00:00:00.000Z''\<rparr>)
   \<and> fst (create_todo sample_login ''p-2'' ''Write spec'' None None todo_env with_project)
     = Inr (Message ''Project with ID p-2 not found'')"
proof -
  have a: "store with_project (project_key sample_login ''p-1'')
             = Some (ProjectDoc \<lparr>p_id = ''p-1'', p_name = ''Launch'', p_description = ''v1'',
                     p_createdAt = ''2025-01-01T00:00:00.000Z'',
                     p_updatedAt = ''2025-01-01T00:00:00.001Z''\<rparr>)"
    by (simp add: sample_defs tool_defs kv_defs key_defs Let_def)
  have b: "store with_project (todos_key sample_login ''p-1'') = None"
    by (simp add: sample_defs tool_defs kv_defs key_defs Let_def)
  have c: "store with_project (project_key sample_login ''p-2'') = None"
    by (simp add: sample_defs tool_defs kv_defs key_defs Let_def)
  show ?thesis
    using a b c
      create_todo_behaviour [of with_project sample_login "''p-1''" "''Write spec''" None None
        todo_env _ "[]"]
      create_todo_behaviour [of with_project sample_login "''p-2''" "''Write spec''" None None
        todo_env]
    by (simp add: todo_env_def)
qed

text \<open>
  C10. When \<open>create_todo\<close> returns a Todo, \<open>get_todo\<close> with the id of that Todo on the
  resulting namespace returns the same Todo, equal as a record and so in every field;
  and \<open>create_todo\<close> does return a Todo whenever the project exists and its Todo Index is
  absent or a list of ids.
\<close>

theorem create_todo_get_todo_round_trip:
  "(fst (create_todo login projectId title description priority e s) = Inr (TodoJson todo) \<longrightarrow>
      fst (get_todo login (t_id todo)
             (snd (create_todo login projectId title description priority e s)))
        = Inr (TodoJson todo))
   \<and> (store s (project_key login projectId) \<noteq> None
        \<and> (store s (todos_key login projectId) = None
             \<or> (\<exists>l. store s (todos_key login projectId) = Some (IdList l))) \<longrightarrow>
      (\<exists>todo. fst (create_todo login projectId title description priority e s)
                 = Inr (TodoJson todo)))"
  using todo_key_neq_todos_key [of login "randomUUID e" login projectId]
  by (auto simp add: create_todo_def getTodoList_def get_todo_def kv_defs Let_def
      split: option.splits doc.splits)

theorem create_todo_get_todo_round_trip_witness:
  "fst (get_todo sample_login ''t-1''
          (snd (create_todo sample_login ''p-1'' ''Write spec'' None (Some High) todo_env with_project)))
     = Inr (TodoJson \<lparr>t_id = ''t-1'', t_projectId = ''p-1'', t_title = ''Write spec'',
                      t_description = [], t_status = Pending, t_priority = High,
                      t_createdAt = ''2025-01-02T00:00:00.000Z'',
                      t_updatedAt = ''2025-01-02T00:00:00.000Z''\<rparr>)"
proof -
  have a: "fst (create_todo sample_login ''p-1'' ''Write spec'' None (Some High) todo_env with_project)
    = Inr (TodoJson \<lparr>t_id = ''t-1'', t_projectId = ''p-1'', t_title = ''Write spec'',
                      t_description = [], t_status = Pending, t_priority = High,
                      t_createdAt = ''2025-01-02T00:00:00.000Z'',
                      t_updatedAt = ''2025-01-02T00:00:00.000Z''\<rparr>)"
    by (simp add: sample_defs tool_defs kv_defs key_defs Let_def)
  show ?thesis
    using a create_todo_get_todo_round_trip [of sample_login "''p-1''" "''Write spec''" None
        "Some High" todo_env with_project
        "\<lparr>t_id = ''t-1'', t_projectId = ''p-1'', t_title = ''Write spec'',
                      t_description = [], t_status = Pending, t_priority = High,
                      t_createdAt = ''2025-01-02T00:00:00.000Z'',
                      t_updatedAt = ''2025-01-02T00:00:00.000Z''\<rparr>"]
    by simp
qed

section \<open>\<open>list_todos\<close>\<close>

lemma todos_loop_listed:
  "\<forall>i \<in> set ids. todo_or_absent (store s) login i \<Longrightarrow>
     fst (todos_loop login ids acc s) = Inr (acc @ listed_todos (store s) login ids)
     \<and> store (snd (todos_loop login ids acc s)) = store s"
proof (induction ids arbitrary: acc s)
  case Nil
  show ?case by (simp add: listed_todos_def)
next
  case (Cons i ids)
  have rest: "\<forall>j \<in> set ids. todo_or_absent (store (s\<lparr>trace := trace s @ [Get (todo_key login i)]\<rparr>)) login j"
    using Cons.prems by simp
  from Cons.prems have "todo_or_absent (store s) login i" by simp
  then show ?case
    using Cons.IH [OF rest]
    by (auto simp add: todo_or_absent_def listed_todos_def KV_get_def
        split: option.splits doc.splits)
qed

text \<open>
  C6. \<open>list_todos\<close> raises the not-found fault when the Project record is absent. For an
  existing project whose Todo Index \<open>l\<close> resolves to Todo records or to nothing, a status
  filter returns exactly the listed todos with that status, in index order, and the
  filter "all" or no filter returns all the listed todos.
\<close>

theorem list_todos_filter:
  "(store s (project_key login projectId) = None \<longrightarrow>
      fst (list_todos login projectId filt s)
        = Inl (Error (''Project with ID '' @ projectId @ '' not found'')))
   \<and> (store s (project_key login projectId) = Some projectData
        \<and> (store s (todos_key login projectId) = None \<and> l = []
             \<or> store s (todos_key login projectId) = Some (IdList l))
        \<and> (\<forall>i \<in> set l. todo_or_absent (store s) login i) \<longrightarrow>
      fst (list_todos login projectId (Some (Only st)) s)
        = Inr (TodosJson (filter (\<lambda>todo. t_status todo = st) (listed_todos (store s) login l)))
      \<and> fst (list_todos login projectId (Some All_statuses) s)
        = Inr (TodosJson (listed_todos (store s) login l))
      \<and> fst (list_todos login projectId None s)
        = Inr (TodosJson (listed_todos (store s) login l)))"
proof (intro conjI impI)
  assume "store s (project_key login projectId) = None"
  then show "fst (list_todos login projectId filt s)
               = Inl (Error (''Project with ID '' @ projectId @ '' not found''))"
    by (simp add: list_todos_def not_found_def KV_get_def)
next
  assume h: "store s (project_key login projectId) = Some projectData
        \<and> (store s (todos_key login projectId) = None \<and> l = []
             \<or> store s (todos_key login projectId) = Some (IdList l))
        \<and> (\<forall>i \<in> set l. todo_or_absent (store s) login i)"
  define s2 where "s2 = s\<lparr>trace := trace s @ [Get (project_key login projectId),
                                            Get (todos_key login projectId)]\<rparr>"
  have s2: "store s2 = store s" by (simp add: s2_def)
  from h have "\<forall>i \<in> set l. todo_or_absent (store s2) login i" by (simp add: s2)
  from todos_loop_listed [OF this, of "[]"]
  have loop: "fst (todos_loop login l [] s2) = Inr (listed_todos (store s) login l)"
    by (simp add: s2)
  from h have get: "getTodosByProject login projectId
                      (s\<lparr>trace := trace s @ [Get (project_key login projectId)]\<rparr>)
                    = todos_loop login l [] s2"
    by (auto simp add: getTodosByProject_def getTodoList_def KV_get_def s2_def)
  from h get loop
  show "fst (list_todos login projectId (Some (Only st)) s)
        = Inr (TodosJson (filter (\<lambda>todo. t_status todo = st) (listed_todos (store s) login l)))"
    by (auto simp add: list_todos_def KV_get_def split: prod.splits sum.splits)
  from h get loop
  show "fst (list_todos login projectId (Some All_statuses) s)
        = Inr (TodosJson (listed_todos (store s) login l))"
    by (auto simp add: list_todos_def KV_get_def split: prod.splits sum.splits)
  from h get loop
  show "fst (list_todos login projectId None s)
        = Inr (TodosJson (listed_todos (store s) login l))"
    by (auto simp add: list_todos_def KV_get_def split: prod.splits sum.splits)
qed

lemma store_three_todos:
  "store three_todos =
     [''project:p-1:user-ermao1688'' \<mapsto>
        ProjectDoc \<lparr>p_id = ''p-1'', p_name = ''Launch'', p_description = ''v1'',
                    p_createdAt = ''2025-01-01T00:00:00.000Z'',
                    p_updatedAt = ''2025-01-01T00:00:00.001Z''\<rparr>,
      ''project:user-${this.props!.login}:list'' \<mapsto> IdList [''p-1''],
      ''todo:user-ermao1688:t-1'' \<mapsto>
        TodoDoc \<lparr>t_id = ''t-1'', t_projectId = ''p-1'', t_title = ''Write spec'',
                 t_description = [], t_status = Pending, t_priority = High,
                 t_createdAt = ''2025-01-02T00:00:00.000Z'',
                 t_updatedAt = ''2025-01-02T00:00:00.000Z''\<rparr>,
      ''todo:user-ermao1688:t-2'' \<mapsto>
        TodoDoc \<lparr>t_id = ''t-2'', t_projectId = ''p-1'', t_title = ''Review'',
                 t_description = [], t_status = Pending, t_priority = Medium,
                 t_createdAt = ''2025-01-03T00:00:00.000Z'',
                 t_updatedAt = ''2025-01-03T00:00:00.000Z''\<rparr>,
      ''project:p-1:user-ermao1688:todos'' \<mapsto> IdList [''t-1'', ''t-2'', ''t-3''],
      ''todo:user-ermao1688:t-3'' \<mapsto>
        TodoDoc \<lparr>t_id = ''t-3'', t_projectId = ''p-1'', t_title = ''Plan'',
                 t_description = ''first'', t_status = Completed, t_priority = Low,
                 t_createdAt = ''2025-01-04T00:00:00.000Z'',
                 t_updatedAt = ''2025-01-04T00:00:00.000Z''\<rparr>]"
  by (simp add: three_todos_def sample_defs tool_defs kv_defs key_defs Let_def)

theorem list_todos_filter_witness:
  "fst (list_todos sample_login ''p-1'' (Some (Only Pending)) three_todos)
     = Inr (TodosJson
         [\<lparr>t_id = ''t-1'', t_projectId = ''p-1'', t_title = ''Write spec'',
           t_description = [], t_status = Pending, t_priority = High,
           t_createdAt = ''2025-01-02T00:00:00.000Z'',
           t_updatedAt = ''2025-01-02T00:00:00.000Z''\<rparr>,
          \<lparr>t_id = ''t-2'', t_projectId = ''p-1'', t_title = ''Review'',
           t_description = [], t_status = Pending, t_priority = Medium,
           t_createdAt = ''2025-01-03T00:00:00.000Z'',
           t_updatedAt = ''2025-01-03T00:00:00.000Z''\<rparr>])
   \<and> fst (list_todos sample_login ''p-9'' (Some (Only Pending)) three_todos)
     = Inl (Error ''Project with ID p-9 not found'')"
  using list_todos_filter [of three_todos sample_login "''p-1''" "Some (Only Pending)"
      "ProjectDoc \<lparr>p_id = ''p-1'', p_name = ''Launch'', p_description = ''v1'',
                    p_createdAt = ''2025-01-01T00:00:00.000Z'',
                    p_updatedAt = ''2025-01-01T00:00:00.001Z''\<rparr>"
      "[''t-1'', ''t-2'', ''t-3'']" Pending]
    list_todos_filter [of three_todos sample_login "''p-9''" "Some (Only Pending)"]
  by (simp add: store_three_todos sample_login_def key_defs todo_or_absent_def listed_todos_def)

section \<open>The key schema\<close>

lemma takeWhile_stop: "c \<notin> set a \<Longrightarrow> takeWhile (\<lambda>d. d \<noteq> c) (a @ c # x) = a"
  by (induction a) auto

lemma last_segment_append:
  "CHR '':'' \<notin> set a \<Longrightarrow> last_segment (x @ CHR '':'' # a) = a"
proof -
  assume a: "CHR '':'' \<notin> set a"
  have "takeWhile (\<lambda>c. c \<noteq> CHR '':'') (rev a @ CHR '':'' # rev x) = rev a"
    using a takeWhile_stop [of "CHR '':''" "rev a" "rev x"] by simp
  then show ?thesis by (simp add: last_segment_def)
qed

lemma last_segment_project_key:
  "CHR '':'' \<notin> set login \<Longrightarrow> last_segment (project_key login x) = ''user-'' @ login"
  using last_segment_append [of "''user-'' @ login" "''project:'' @ x"]
  by (simp add: project_key_def)

lemma last_segment_todos_key: "last_segment (todos_key login x) = ''todos''"
  using last_segment_append [of "''todos''" "''project:'' @ x @ '':user-'' @ login"]
  by (simp add: todos_key_def)

lemma last_segment_project_list_key: "last_segment (project_list_key login) = ''list''"
  using last_segment_append [of "''list''" "''project:user-'' @ login"]
  by (simp add: project_list_key_def)

lemma last_segment_literal: "last_segment project_list_literal = ''list''"
  by (simp add: project_list_literal_def last_segment_def)

lemma first_segment_eq:
  assumes "CHR '':'' \<notin> set a" "CHR '':'' \<notin> set b" "a @ CHR '':'' # x = b @ CHR '':'' # y"
  shows "a = b"
proof -
  have "takeWhile (\<lambda>c. c \<noteq> CHR '':'') (a @ CHR '':'' # x) = a"
    using assms(1) by (rule takeWhile_stop)
  moreover have "takeWhile (\<lambda>c. c \<noteq> CHR '':'') (b @ CHR '':'' # y) = b"
    using assms(2) by (rule takeWhile_stop)
  ultimately show ?thesis using assms(3) by simp
qed

lemma project_list_key_not_owned:
  "CHR '':'' \<notin> set a \<Longrightarrow> \<not> owned_key a (project_list_key login)"
proof
  assume a: "CHR '':'' \<notin> set a" and o: "owned_key a (project_list_key login)"
  from o consider x where "project_list_key login = project_key a x"
    | x where "project_list_key login = todos_key a x"
    | x where "project_list_key login = todo_key a x"
    by (auto simp: owned_key_def)
  then show False
  proof cases
    case 1
    then have "last_segment (project_list_key login) = last_segment (project_key a x)" by simp
    with a show False by (simp add: last_segment_project_list_key last_segment_project_key)
  next
    case 2
    then have "last_segment (project_list_key login) = last_segment (todos_key a x)" by simp
    then show False by (simp add: last_segment_project_list_key last_segment_todos_key)
  next
    case 3
    then show False by (simp add: key_defs)
  qed
qed

lemma project_list_key_neq_literal:
  "login \<noteq> ''${this.props!.login}'' \<Longrightarrow> project_list_key login \<noteq> project_list_literal"
  by (simp add: key_defs)

section \<open>What a call reads and writes\<close>

lemma owned_project_key: "owned_key login (project_key login x)"
  by (auto simp: owned_key_def)

lemma owned_todos_key: "owned_key login (todos_key login x)"
  by (auto simp: owned_key_def)

lemma owned_todo_key: "owned_key login (todo_key login x)"
  by (auto simp: owned_key_def)

lemma steps_by_refl: "steps_by login s s"
  by (simp add: steps_by_def)

lemma steps_by_trans:
  assumes "steps_by login s s1" "steps_by login s1 s2"
  shows "steps_by login s s2"
proof -
  from assms(1) obtain ops1 where
    1: "trace s1 = trace s @ ops1" "\<forall>op \<in> set ops1. permitted login op"
    by (auto simp: steps_by_def)
  from assms(2) obtain ops2 where
    2: "trace s2 = trace s1 @ ops2" "\<forall>op \<in> set ops2. permitted login op"
    by (auto simp: steps_by_def)
  have "trace s2 = trace s @ (ops1 @ ops2) \<and> (\<forall>op \<in> set (ops1 @ ops2). permitted login op)"
    using 1 2 by auto
  then have "\<exists>ops. trace s2 = trace s @ ops \<and> (\<forall>op \<in> set ops. permitted login op)"
    by blast
  moreover have "\<forall>k. \<not> owned_key login k \<and> k \<noteq> project_list_literal \<longrightarrow> store s2 k = store s k"
    using assms by (simp add: steps_by_def)
  ultimately show ?thesis by (simp add: steps_by_def)
qed

lemma steps_by_get: "KV_get k s = (v, s1) \<Longrightarrow> visible_to login k \<Longrightarrow> steps_by login s s1"
  by (auto simp: steps_by_def KV_get_def)

lemma steps_by_put:
  "owned_key login k \<or> k = project_list_literal \<Longrightarrow> steps_by login s (KV_put k v s)"
  by (auto simp: steps_by_def KV_put_def)

lemma steps_by_delete: "owned_key login k \<Longrightarrow> steps_by login s (KV_delete k s)"
  by (auto simp: steps_by_def KV_delete_def)

lemma steps_by_get_project_key:
  "KV_get (project_key login x) s = (v, s1) \<Longrightarrow> steps_by login s s1"
  by (erule steps_by_get) (simp add: visible_to_def owned_project_key)

lemma steps_by_get_todo_key:
  "KV_get (todo_key login x) s = (v, s1) \<Longrightarrow> steps_by login s s1"
  by (erule steps_by_get) (simp add: visible_to_def owned_todo_key)

lemma steps_by_puts:
  "steps_by login s (KV_put (project_key login x) v s)"
  "steps_by login s (KV_put (todo_key login x) v s)"
  "steps_by login s (KV_put (todos_key login x) v s)"
  "steps_by login s (KV_put project_list_literal v s)"
  by (simp_all add: steps_by_put owned_project_key owned_todo_key owned_todos_key)

lemma steps_by_deletes:
  "steps_by login s (KV_delete (project_key login x) s)"
  "steps_by login s (KV_delete (todo_key login x) s)"
  by (simp_all add: steps_by_delete owned_project_key owned_todo_key)

lemma steps_by_getProjectList: "getProjectList login s = (r, s1) \<Longrightarrow> steps_by login s s1"
  by (auto simp: getProjectList_def visible_to_def split: prod.splits option.splits doc.splits
      intro: steps_by_get)

lemma steps_by_getTodoList: "getTodoList login projectId s = (r, s1) \<Longrightarrow> steps_by login s s1"
  by (auto simp: getTodoList_def visible_to_def owned_todos_key
      split: prod.splits option.splits doc.splits intro: steps_by_get)

lemma steps_by_todos_loop: "todos_loop login ids acc s = (r, s1) \<Longrightarrow> steps_by login s s1"
proof (induction ids arbitrary: acc s)
  case Nil
  then show ?case by (simp add: steps_by_refl)
next
  case (Cons i ids)
  obtain v s0 where g: "KV_get (todo_key login i) s = (v, s0)" by (cases "KV_get (todo_key login i) s")
  then have a: "steps_by login s s0"
    by (rule steps_by_get_todo_key)
  from Cons.prems g have "s1 = s0 \<or> (\<exists>acc'. todos_loop login ids acc' s0 = (r, s1))"
    by (auto split: option.splits doc.splits)
  then show ?case using a Cons.IH by (blast intro: steps_by_trans)
qed

lemma steps_by_getTodosByProject:
  "getTodosByProject login projectId s = (r, s1) \<Longrightarrow> steps_by login s s1"
  by (auto simp: getTodosByProject_def split: prod.splits sum.splits
      intro: steps_by_getTodoList steps_by_todos_loop steps_by_trans)

lemma steps_by_deleteTodo:
  "deleteTodo login projectId todoId s = (r, s1) \<Longrightarrow> steps_by login s s1"
  by (auto simp: deleteTodo_def split: prod.splits sum.splits intro: steps_by_getTodoList)
     (blast intro: steps_by_getTodoList steps_by_puts steps_by_trans)+

lemma steps_by_delete_loop:
  "delete_loop login projectId todos s = (r, s1) \<Longrightarrow> steps_by login s s1"
proof (induction todos arbitrary: s)
  case Nil
  then show ?case by (simp add: steps_by_refl)
next
  case (Cons t todos)
  obtain v s0 where g: "deleteTodo login projectId (t_id t) s = (v, s0)"
    by (cases "deleteTodo login projectId (t_id t) s")
  then have a: "steps_by login s s0" by (rule steps_by_deleteTodo)
  from Cons.prems g have "s1 = s0 \<or> delete_loop login projectId todos s0 = (r, s1)"
    by (auto split: sum.splits)
  then show ?case using a Cons.IH by (blast intro: steps_by_trans)
qed

lemma steps_by_projects_loop: "projects_loop login ids acc s = (r, s1) \<Longrightarrow> steps_by login s s1"
proof (induction ids arbitrary: acc s)
  case Nil
  then show ?case by (simp add: steps_by_refl)
next
  case (Cons i ids)
  obtain v s0 where g: "KV_get (project_key login i) s = (v, s0)"
    by (cases "KV_get (project_key login i) s")
  then have a: "steps_by login s s0"
    by (rule steps_by_get_project_key)
  from Cons.prems g have "s1 = s0 \<or> (\<exists>acc'. projects_loop login ids acc' s0 = (r, s1))"
    by (auto split: option.splits doc.splits)
  then show ?case using a Cons.IH by (blast intro: steps_by_trans)
qed

lemma visible_project_key: "visible_to login (project_key login x)"
  by (simp add: visible_to_def owned_project_key)

lemma visible_todo_key: "visible_to login (todo_key login x)"
  by (simp add: visible_to_def owned_todo_key)

lemma steps_by_createProject:
  "createProject login name description e s = (r, s1) \<Longrightarrow> steps_by login s s1"
  by (auto simp: createProject_def Let_def split: prod.splits sum.splits)
     (blast intro: steps_by_getProjectList steps_by_puts steps_by_trans)+

lemma steps_by_get_project_list: "get_project_list login s = (r, s1) \<Longrightarrow> steps_by login s s1"
  by (auto simp: get_project_list_def split: prod.splits sum.splits
      intro: steps_by_getProjectList steps_by_projects_loop steps_by_trans)

lemma steps_by_get_project: "get_project login projectId s = (r, s1) \<Longrightarrow> steps_by login s s1"
  by (auto simp: get_project_def split: prod.splits sum.splits option.splits doc.splits
      intro: steps_by_get_project_key)
     (blast intro: steps_by_get_project_key steps_by_getTodosByProject steps_by_trans)+

lemma steps_by_delete_project:
  "delete_project login projectId s = (r, s1) \<Longrightarrow> steps_by login s s1"
proof -
  assume d: "delete_project login projectId s = (r, s1)"
  obtain v s0 where g: "KV_get (project_key login projectId) s = (v, s0)"
    by (cases "KV_get (project_key login projectId) s")
  then have a: "steps_by login s s0" by (rule steps_by_get_project_key)
  obtain r2 s2 where t: "getTodosByProject login projectId s0 = (r2, s2)"
    by (cases "getTodosByProject login projectId s0")
  then have b: "steps_by login s0 s2" by (rule steps_by_getTodosByProject)
  show ?thesis
  proof (cases v)
    case None
    with d g a show ?thesis by (simp add: delete_project_def)
  next
    case (Some projectData)
    show ?thesis
    proof (cases r2)
      case (Inl err)
      with d g t Some have "s1 = s2" by (simp add: delete_project_def)
      with a b show ?thesis by (blast intro: steps_by_trans)
    next
      case (Inr todos)
      obtain r3 s3 where l: "delete_loop login projectId todos s2 = (r3, s3)"
        by (cases "delete_loop login projectId todos s2")
      then have c: "steps_by login s2 s3" by (rule steps_by_delete_loop)
      have c': "steps_by login s3 (KV_delete (project_key login projectId) s3)"
        by (rule steps_by_deletes)
      obtain r5 s5 where p: "getProjectList login (KV_delete (project_key login projectId) s3) = (r5, s5)"
        by (cases "getProjectList login (KV_delete (project_key login projectId) s3)")
      then have e: "steps_by login (KV_delete (project_key login projectId) s3) s5"
        by (rule steps_by_getProjectList)
      have s05: "steps_by login s s5" using a b c c' e by (blast intro: steps_by_trans)
      have s03: "steps_by login s s3" using a b c by (blast intro: steps_by_trans)
      from d g t Some Inr l p
      have "s1 = s3 \<or> s1 = s5 \<or> (\<exists>v. s1 = KV_put project_list_literal v s5)"
        by (auto simp: delete_project_def Let_def split: sum.splits)
      then show ?thesis using s03 s05
        by (blast intro: steps_by_puts steps_by_trans)
    qed
  qed
qed

lemma steps_by_create_todo:
  "create_todo login projectId title description priority e s = (r, s1) \<Longrightarrow> steps_by login s s1"
proof -
  assume c: "create_todo login projectId title description priority e s = (r, s1)"
  obtain v s0 where g: "KV_get (project_key login projectId) s = (v, s0)"
    by (cases "KV_get (project_key login projectId) s")
  then have a: "steps_by login s s0" by (rule steps_by_get_project_key)
  show ?thesis
  proof (cases v)
    case None
    with c g a show ?thesis by (simp add: create_todo_def)
  next
    case (Some projectData)
    from c g Some obtain d r3 s3 l where
      t: "getTodoList login projectId (KV_put (todo_key login (randomUUID e)) d s0) = (r3, s3)"
      and s1: "s1 = s3 \<or> s1 = KV_put (todos_key login projectId) l s3"
      by (auto simp: create_todo_def Let_def split: prod.splits sum.splits)
    from t have "steps_by login (KV_put (todo_key login (randomUUID e)) d s0) s3"
      by (rule steps_by_getTodoList)
    with a have "steps_by login s s3" by (blast intro: steps_by_puts steps_by_trans)
    with s1 show ?thesis by (blast intro: steps_by_puts steps_by_trans)
  qed
qed

lemma steps_by_update_todo:
  "update_todo login todoId title description status priority e s = (r, s1) \<Longrightarrow> steps_by login s s1"
proof -
  assume u: "update_todo login todoId title description status priority e s = (r, s1)"
  obtain v s0 where g: "KV_get (todo_key login todoId) s = (v, s0)"
    by (cases "KV_get (todo_key login todoId) s")
  then have a: "steps_by login s s0" by (rule steps_by_get_todo_key)
  from u g have "s1 = s0 \<or> (\<exists>d. s1 = KV_put (todo_key login todoId) d s0)"
    by (auto simp: update_todo_def Let_def split: option.splits doc.splits)
  with a show ?thesis by (blast intro: steps_by_puts steps_by_trans)
qed

lemma steps_by_delete_todo: "delete_todo login todoId s = (r, s1) \<Longrightarrow> steps_by login s s1"
proof -
  assume d: "delete_todo login todoId s = (r, s1)"
  obtain v s0 where g: "KV_get (todo_key login todoId) s = (v, s0)"
    by (cases "KV_get (todo_key login todoId) s")
  then have a: "steps_by login s s0" by (rule steps_by_get_todo_key)
  from d g have "s1 = s0 \<or> (\<exists>p r2 s2 l. getTodoList login p s0 = (r2, s2)
      \<and> (s1 = s2 \<or> s1 = KV_delete (todo_key login todoId) (KV_put (todos_key login p) l s2)))"
    by (auto simp: delete_todo_def Let_def split: option.splits doc.splits prod.splits sum.splits)
  with a show ?thesis
    by (blast intro: steps_by_getTodoList steps_by_puts steps_by_deletes steps_by_trans)
qed

lemma steps_by_get_todo: "get_todo login todoId s = (r, s1) \<Longrightarrow> steps_by login s s1"
  by (auto simp: get_todo_def split: prod.splits sum.splits option.splits doc.splits
      intro: steps_by_get_todo_key)

lemma steps_by_list_todos: "list_todos login projectId filt s = (r, s1) \<Longrightarrow> steps_by login s s1"
proof -
  assume d: "list_todos login projectId filt s = (r, s1)"
  obtain v s0 where g: "KV_get (project_key login projectId) s = (v, s0)"
    by (cases "KV_get (project_key login projectId) s")
  then have a: "steps_by login s s0" by (rule steps_by_get_project_key)
  from d g have "s1 = s0 \<or> (\<exists>r2. getTodosByProject login projectId s0 = (r2, s1))"
    by (auto simp: list_todos_def 
        split: option.splits prod.splits sum.splits status_filter.splits)
  with a show ?thesis
    by (blast intro: steps_by_getTodosByProject steps_by_trans)
qed

lemma steps_by_handler: "steps_by login s (snd (handler login c e s))"
proof -
  obtain r s1 where h: "handler login c e s = (r, s1)" by (cases "handler login c e s")
  then have "steps_by login s s1"
    by (cases c)
      (simp_all add: steps_by_createProject steps_by_get_project_list steps_by_get_project
        steps_by_delete_project steps_by_create_todo steps_by_update_todo steps_by_delete_todo
        steps_by_get_todo steps_by_list_todos)
  with h show ?thesis by simp
qed

section \<open>The Project Index is never read back\<close>

lemma allowed_colon_free: "login \<in> ALLOWED_USERNAMES \<Longrightarrow> CHR '':'' \<notin> set login"
  by (auto simp: ALLOWED_USERNAMES_def)

lemma allowed_not_placeholder: "login \<in> ALLOWED_USERNAMES \<Longrightarrow> login \<noteq> ''${this.props!.login}''"
  by (auto simp: ALLOWED_USERNAMES_def)

lemma steps_by_call_tool:
  "call_tool login c e s = (r, s1) \<Longrightarrow> s1 = s \<or> login \<in> ALLOWED_USERNAMES \<and> steps_by login s s1"
  using steps_by_handler [of login s c e] by (auto simp: call_tool_def split: if_splits)

lemma index_unwritten_steps_by:
  assumes "index_unwritten s" "a \<in> ALLOWED_USERNAMES" "steps_by a s s1"
  shows "index_unwritten s1"
proof -
  from assms(3) obtain ops where
    st: "\<forall>k. \<not> owned_key a k \<and> k \<noteq> project_list_literal \<longrightarrow> store s1 k = store s k"
    and tr: "trace s1 = trace s @ ops" and ok: "\<forall>op \<in> set ops. permitted a op"
    by (auto simp: steps_by_def)
  have "store s1 (project_list_key login) = None
        \<and> (\<forall>v. Put (project_list_key login) v \<notin> set (trace s1))"
    if l: "login \<in> ALLOWED_USERNAMES" for login
  proof -
    have no: "\<not> owned_key a (project_list_key login)"
      using assms(2) by (simp add: project_list_key_not_owned allowed_colon_free)
    have ne: "project_list_key login \<noteq> project_list_literal"
      using l by (simp add: project_list_key_neq_literal allowed_not_placeholder)
    from no ne st have "store s1 (project_list_key login) = store s (project_list_key login)"
      by simp
    moreover have "Put (project_list_key login) v \<notin> set ops" for v
    proof
      assume "Put (project_list_key login) v \<in> set ops"
      with ok have "permitted a (Put (project_list_key login) v)" by blast
      with no ne show False by simp
    qed
    ultimately show ?thesis using assms(1) l tr by (simp add: index_unwritten_def)
  qed
  then show ?thesis by (simp add: index_unwritten_def)
qed

lemma index_unwritten_run: "index_unwritten s \<Longrightarrow> index_unwritten (run calls s)"
proof (induction calls arbitrary: s)
  case Nil
  then show ?case by simp
next
  case (Cons call calls)
  obtain login c e where call: "call = (login, c, e)" by (cases call)
  obtain r s1 where r: "call_tool login c e s = (r, s1)" by (cases "call_tool login c e s")
  from steps_by_call_tool [OF r] Cons.prems have "index_unwritten s1"
    by (auto intro: index_unwritten_steps_by)
  then have "index_unwritten (run calls s1)" by (rule Cons.IH)
  with call r show ?case by simp
qed

lemma index_unwritten_empty: "index_unwritten empty_kv"
  by (simp add: index_unwritten_def empty_kv_def)

text \<open>
  C3. Starting from the empty namespace, after any finite sequence of tool calls by any
  logins, \<open>get_project_list\<close> called by a login of the allow-list returns the empty
  sequence (a login outside the allow-list has no such tool): the key that
  \<open>getProjectList\<close> reads holds no value and no write in the whole trace targets it,
  because the Project Index is written under the uninterpolated key.
\<close>

theorem project_list_always_empty:
  "fst (call_tool login GetProjectList e (run calls empty_kv))
     = (if login \<in> ALLOWED_USERNAMES then Inr (ProjectsJson []) else Inl ToolNotRegistered)
   \<and> (login \<in> ALLOWED_USERNAMES \<longrightarrow>
        store (run calls empty_kv) (project_list_key login) = None
        \<and> (\<forall>v. Put (project_list_key login) v \<notin> set (trace (run calls empty_kv))))"
proof -
  have "index_unwritten (run calls empty_kv)"
    using index_unwritten_empty by (rule index_unwritten_run)
  then show ?thesis
    by (simp add: index_unwritten_def call_tool_def get_project_list_def getProjectList_def
        KV_get_def)
qed

theorem project_list_always_empty_witness:
  "''ermao1688'' \<in> ALLOWED_USERNAMES
   \<and> fst (call_tool ''ermao1688'' GetProjectList project_env (run two_owner_session empty_kv))
       = Inr (ProjectsJson [])
   \<and> store (run two_owner_session empty_kv) ''project:user-${this.props!.login}:list''
       = Some (IdList [])"
proof -
  have a: "''ermao1688'' \<in> ALLOWED_USERNAMES" by (simp add: ALLOWED_USERNAMES_def)
  have b: "store (run two_owner_session empty_kv) ''project:user-${this.props!.login}:list''
       = Some (IdList [])"
    by (simp add: two_owner_session_def sample_defs tool_defs kv_defs key_defs
        remove_by_index_remove1 Let_def)
  show ?thesis
    using a b project_list_always_empty [of "''ermao1688''" project_env two_owner_session]
    by simp
qed

section \<open>Isolation of owners\<close>

lemma todos_key_project_key: "todos_key login x = project_key login x @ '':todos''"
  by (simp add: key_defs)

lemma project_key_neq_todos_key:
  "CHR '':'' \<notin> set l \<Longrightarrow> project_key l x \<noteq> todos_key l' y"
proof
  assume l: "CHR '':'' \<notin> set l" and "project_key l x = todos_key l' y"
  then have "last_segment (project_key l x) = last_segment (todos_key l' y)" by simp
  with l show False by (simp add: last_segment_project_key last_segment_todos_key)
qed

lemma project_key_neq_project_list_key:
  "CHR '':'' \<notin> set l \<Longrightarrow> project_key l x \<noteq> project_list_key l'"
proof
  assume l: "CHR '':'' \<notin> set l" and "project_key l x = project_list_key l'"
  then have "last_segment (project_key l x) = last_segment (project_list_key l')" by simp
  with l show False by (simp add: last_segment_project_key last_segment_project_list_key)
qed

lemma todos_key_neq_project_list_key: "todos_key l x \<noteq> project_list_key l'"
proof
  assume "todos_key l x = project_list_key l'"
  then have "last_segment (todos_key l x) = last_segment (project_list_key l')" by simp
  then show False by (simp add: last_segment_todos_key last_segment_project_list_key)
qed

lemma project_key_other_login:
  assumes "CHR '':'' \<notin> set a" "CHR '':'' \<notin> set b" "a \<noteq> b"
  shows "project_key a x \<noteq> project_key b y"
proof
  assume "project_key a x = project_key b y"
  then have "last_segment (project_key a x) = last_segment (project_key b y)" by simp
  with assms show False by (simp add: last_segment_project_key)
qed

lemma todos_key_other_login:
  assumes "CHR '':'' \<notin> set a" "CHR '':'' \<notin> set b" "a \<noteq> b"
  shows "todos_key a x \<noteq> todos_key b y"
  using project_key_other_login [OF assms, of x y] by (simp add: todos_key_project_key)

lemma todo_key_other_login:
  assumes "CHR '':'' \<notin> set a" "CHR '':'' \<notin> set b" "a \<noteq> b"
  shows "todo_key a x \<noteq> todo_key b y"
proof
  assume "todo_key a x = todo_key b y"
  then have "a @ CHR '':'' # x = b @ CHR '':'' # y" by (simp add: todo_key_def)
  with assms(1,2) have "a = b" by (rule first_segment_eq)
  with assms(3) show False by simp
qed

lemma owned_not_visible_to_other:
  assumes a: "CHR '':'' \<notin> set a" and b: "CHR '':'' \<notin> set b" and ne: "a \<noteq> b"
    and o: "owned_key a k"
  shows "\<not> visible_to b k"
proof -
  from o consider x where "k = project_key a x" | x where "k = todos_key a x"
    | x where "k = todo_key a x"
    by (auto simp: owned_key_def)
  then have "(\<forall>y. k \<noteq> project_key b y) \<and> (\<forall>y. k \<noteq> todos_key b y)
      \<and> (\<forall>y. k \<noteq> todo_key b y) \<and> k \<noteq> project_list_key b"
  proof cases
    case 1
    show ?thesis
      using project_key_other_login [OF a b ne, of x] project_key_neq_todos_key [OF a, of x b]
        todo_key_neq_project_key [of b _ a x] project_key_neq_project_list_key [OF a, of x b]
      by (simp add: 1) metis
  next
    case 2
    show ?thesis
      using todos_key_other_login [OF a b ne, of x] project_key_neq_todos_key [OF b, of _ a x]
        todo_key_neq_todos_key [of b _ a x] todos_key_neq_project_list_key [of a x b]
      by (simp add: 2) metis
  next
    case 3
    show ?thesis
      using todo_key_other_login [OF a b ne, of x] todo_key_neq_project_key [of a x b]
        todo_key_neq_todos_key [of a x b] todo_key_neq_project_list_key [of a x b]
      by (simp add: 3)
  qed
  then show ?thesis by (auto simp: visible_to_def owned_key_def)
qed

lemma literal_not_visible:
  assumes b: "CHR '':'' \<notin> set b" and ne: "b \<noteq> ''${this.props!.login}''"
  shows "\<not> visible_to b project_list_literal"
proof
  assume v: "visible_to b project_list_literal"
  have 1: "project_list_literal \<noteq> project_key b x" for x
  proof
    assume "project_list_literal = project_key b x"
    then have "last_segment project_list_literal = last_segment (project_key b x)" by simp
    with b show False by (simp add: last_segment_literal last_segment_project_key)
  qed
  have 2: "project_list_literal \<noteq> todos_key b x" for x
  proof
    assume "project_list_literal = todos_key b x"
    then have "last_segment project_list_literal = last_segment (todos_key b x)" by simp
    then show False by (simp add: last_segment_literal last_segment_todos_key)
  qed
  have 3: "project_list_literal \<noteq> todo_key b x" for x by (simp add: key_defs)
  have 4: "project_list_literal \<noteq> project_list_key b"
    using project_list_key_neq_literal [OF ne] by simp
  from v 1 2 3 4 show False by (auto simp: visible_to_def owned_key_def)
qed

lemma steps_by_same_view:
  assumes "a \<in> ALLOWED_USERNAMES" "b \<in> ALLOWED_USERNAMES" "a \<noteq> b" "steps_by a s s1"
  shows "same_view b s s1"
proof -
  have "store s k = store s1 k" if v: "visible_to b k" for k
  proof -
    have "\<not> owned_key a k"
      using owned_not_visible_to_other [of a b k] assms(1-3) v
      by (auto simp: allowed_colon_free)
    moreover have "k \<noteq> project_list_literal"
      using literal_not_visible [of b] assms(2) v
      by (auto simp: allowed_colon_free allowed_not_placeholder)
    ultimately show ?thesis using assms(4) by (simp add: steps_by_def)
  qed
  then show ?thesis by (simp add: same_view_def)
qed

lemma sublist_keys:
  "sublist login (project_key login x)"
  "sublist login (todos_key login x)"
  "sublist login (todo_key login x)"
  "sublist login (project_list_key login)"
proof -
  show "sublist login (project_key login x)"
    using sublist_appendI [of login "''project:'' @ x @ '':user-''" "[]"]
    by (simp add: project_key_def)
  show "sublist login (todos_key login x)"
    using sublist_appendI [of login "''project:'' @ x @ '':user-''" "'':todos''"]
    by (simp add: todos_key_def)
  show "sublist login (todo_key login x)"
    using sublist_appendI [of login "''todo:user-''" "'':'' @ x"]
    by (simp add: todo_key_def)
  show "sublist login (project_list_key login)"
    using sublist_appendI [of login "''project:user-''" "'':list''"]
    by (simp add: project_list_key_def)
qed

lemma visible_sublist: "visible_to login k \<Longrightarrow> sublist login k"
  by (auto simp: visible_to_def owned_key_def sublist_keys)

lemma permitted_embeds:
  "permitted login op \<Longrightarrow> (\<exists>v. op = Put project_list_literal v) \<or> sublist login (op_key op)"
  by (cases op) (auto simp: visible_to_def visible_sublist)

lemma same_view_refl: "same_view login s s"
  by (simp add: same_view_def)

lemma same_view_trans: "same_view login s s1 \<Longrightarrow> same_view login s1 s2 \<Longrightarrow> same_view login s s2"
  by (simp add: same_view_def)

lemma same_view_sym: "same_view login s s1 \<Longrightarrow> same_view login s1 s"
  by (simp add: same_view_def)

lemma sv_get:
  "same_view login s s' \<Longrightarrow> visible_to login k \<Longrightarrow>
     fst (KV_get k s) = fst (KV_get k s') \<and> same_view login (snd (KV_get k s)) (snd (KV_get k s'))"
  by (simp add: same_view_def KV_get_def)

lemma sv_put: "same_view login s s' \<Longrightarrow> same_view login (KV_put k v s) (KV_put k v s')"
  by (simp add: same_view_def KV_put_def)

lemma sv_delete: "same_view login s s' \<Longrightarrow> same_view login (KV_delete k s) (KV_delete k s')"
  by (simp add: same_view_def KV_delete_def)

lemma visible_todos_key: "visible_to login (todos_key login x)"
  by (simp add: visible_to_def owned_todos_key)

lemma visible_project_list_key: "visible_to login (project_list_key login)"
  by (simp add: visible_to_def)

lemma sv_getProjectList:
  assumes "same_view login s s'"
  shows "fst (getProjectList login s) = fst (getProjectList login s')
     \<and> same_view login (snd (getProjectList login s)) (snd (getProjectList login s'))"
  using sv_get [OF assms visible_project_list_key]
  by (auto simp: getProjectList_def split: prod.splits option.splits doc.splits)

lemma sv_getTodoList:
  assumes "same_view login s s'"
  shows "fst (getTodoList login p s) = fst (getTodoList login p s')
     \<and> same_view login (snd (getTodoList login p s)) (snd (getTodoList login p s'))"
  using sv_get [OF assms visible_todos_key, of p]
  by (auto simp: getTodoList_def split: prod.splits option.splits doc.splits)

lemma sv_todos_loop:
  "same_view login s s' \<Longrightarrow>
     fst (todos_loop login ids acc s) = fst (todos_loop login ids acc s')
     \<and> same_view login (snd (todos_loop login ids acc s)) (snd (todos_loop login ids acc s'))"
proof (induction ids arbitrary: acc s s')
  case Nil
  then show ?case by simp
next
  case (Cons i ids)
  obtain v s1 where a: "KV_get (todo_key login i) s = (v, s1)"
    by (cases "KV_get (todo_key login i) s")
  obtain v' s1' where b: "KV_get (todo_key login i) s' = (v', s1')"
    by (cases "KV_get (todo_key login i) s'")
  from sv_get [OF Cons.prems visible_todo_key, of i] a b
  have eq: "v' = v" and sv: "same_view login s1 s1'" by simp_all
  show ?case using a b eq sv Cons.IH [OF sv]
    by (auto split: option.splits doc.splits)
qed

lemma sv_projects_loop:
  "same_view login s s' \<Longrightarrow>
     fst (projects_loop login ids acc s) = fst (projects_loop login ids acc s')
     \<and> same_view login (snd (projects_loop login ids acc s)) (snd (projects_loop login ids acc s'))"
proof (induction ids arbitrary: acc s s')
  case Nil
  then show ?case by simp
next
  case (Cons i ids)
  obtain v s1 where a: "KV_get (project_key login i) s = (v, s1)"
    by (cases "KV_get (project_key login i) s")
  obtain v' s1' where b: "KV_get (project_key login i) s' = (v', s1')"
    by (cases "KV_get (project_key login i) s'")
  from sv_get [OF Cons.prems visible_project_key, of i] a b
  have eq: "v' = v" and sv: "same_view login s1 s1'" by simp_all
  show ?case using a b eq sv Cons.IH [OF sv]
    by (auto split: option.splits doc.splits)
qed

lemma sv_getTodosByProject:
  assumes "same_view login s s'"
  shows "fst (getTodosByProject login p s) = fst (getTodosByProject login p s')
     \<and> same_view login (snd (getTodosByProject login p s)) (snd (getTodosByProject login p s'))"
proof -
  obtain r s1 where a: "getTodoList login p s = (r, s1)" by (cases "getTodoList login p s")
  obtain r' s1' where b: "getTodoList login p s' = (r', s1')" by (cases "getTodoList login p s'")
  from sv_getTodoList [OF assms, of p] a b
  have eq: "r' = r" and sv: "same_view login s1 s1'" by simp_all
  show ?thesis using a b eq sv sv_todos_loop [OF sv]
    by (auto simp: getTodosByProject_def split: sum.splits)
qed

lemma sv_deleteTodo:
  assumes "same_view login s s'"
  shows "fst (deleteTodo login p t s) = fst (deleteTodo login p t s')
     \<and> same_view login (snd (deleteTodo login p t s)) (snd (deleteTodo login p t s'))"
proof -
  obtain r s1 where a: "getTodoList login p s = (r, s1)" by (cases "getTodoList login p s")
  obtain r' s1' where b: "getTodoList login p s' = (r', s1')" by (cases "getTodoList login p s'")
  from sv_getTodoList [OF assms, of p] a b
  have eq: "r' = r" and sv: "same_view login s1 s1'" by simp_all
  show ?thesis using a b eq sv
    by (auto simp: deleteTodo_def intro: sv_put split: sum.splits)
qed

lemma sv_delete_loop:
  "same_view login s s' \<Longrightarrow>
     fst (delete_loop login p todos s) = fst (delete_loop login p todos s')
     \<and> same_view login (snd (delete_loop login p todos s)) (snd (delete_loop login p todos s'))"
proof (induction todos arbitrary: s s')
  case Nil
  then show ?case by simp
next
  case (Cons t todos)
  obtain r s1 where a: "deleteTodo login p (t_id t) s = (r, s1)"
    by (cases "deleteTodo login p (t_id t) s")
  obtain r' s1' where b: "deleteTodo login p (t_id t) s' = (r', s1')"
    by (cases "deleteTodo login p (t_id t) s'")
  from sv_deleteTodo [OF Cons.prems, of p "t_id t"] a b
  have eq: "r' = r" and sv: "same_view login s1 s1'" by simp_all
  show ?case using a b eq sv Cons.IH [OF sv]
    by (auto split: sum.splits)
qed

lemma sv_createProject:
  assumes "same_view login s s'"
  shows "fst (createProject login name d e s) = fst (createProject login name d e s')
     \<and> same_view login (snd (createProject login name d e s))
          (snd (createProject login name d e s'))"
proof -
  define pr where "pr = ProjectDoc \<lparr>p_id = randomUUID e, p_name = name,
                     p_description = (case d of None \<Rightarrow> [] | Some d \<Rightarrow> d),
                     p_createdAt = date1 e, p_updatedAt = date2 e\<rparr>"
  define k where "k = project_key login (randomUUID e)"
  have sv0: "same_view login (KV_put k pr s) (KV_put k pr s')" using assms by (rule sv_put)
  obtain r s1 where a: "getProjectList login (KV_put k pr s) = (r, s1)"
    by (cases "getProjectList login (KV_put k pr s)")
  obtain r' s1' where b: "getProjectList login (KV_put k pr s') = (r', s1')"
    by (cases "getProjectList login (KV_put k pr s')")
  from sv_getProjectList [OF sv0] a b
  have eq: "r' = r" and sv: "same_view login s1 s1'" by simp_all
  show ?thesis using a b eq sv
    by (auto simp: createProject_def Let_def pr_def k_def intro: sv_put split: sum.splits)
qed

lemma sv_get_project_list:
  assumes "same_view login s s'"
  shows "fst (get_project_list login s) = fst (get_project_list login s')
     \<and> same_view login (snd (get_project_list login s)) (snd (get_project_list login s'))"
proof -
  obtain r s1 where a: "getProjectList login s = (r, s1)" by (cases "getProjectList login s")
  obtain r' s1' where b: "getProjectList login s' = (r', s1')" by (cases "getProjectList login s'")
  from sv_getProjectList [OF assms] a b
  have eq: "r' = r" and sv: "same_view login s1 s1'" by simp_all
  show ?thesis
  proof (cases r)
    case (Inl err)
    with a b eq sv show ?thesis by (simp add: get_project_list_def)
  next
    case (Inr l)
    obtain q s2 where c: "projects_loop login l [] s1 = (q, s2)"
      by (cases "projects_loop login l [] s1")
    obtain q' s2' where d: "projects_loop login l [] s1' = (q', s2')"
      by (cases "projects_loop login l [] s1'")
    from sv_projects_loop [OF sv, of l "[]"] c d
    have "q' = q" "same_view login s2 s2'" by simp_all
    with a b eq Inr c d show ?thesis
      by (auto simp: get_project_list_def split: sum.splits)
  qed
qed

lemma sv_get_project:
  assumes "same_view login s s'"
  shows "fst (get_project login p s) = fst (get_project login p s')
     \<and> same_view login (snd (get_project login p s)) (snd (get_project login p s'))"
proof -
  obtain v s1 where a: "KV_get (project_key login p) s = (v, s1)"
    by (cases "KV_get (project_key login p) s")
  obtain v' s1' where b: "KV_get (project_key login p) s' = (v', s1')"
    by (cases "KV_get (project_key login p) s'")
  from sv_get [OF assms visible_project_key, of p] a b
  have eq: "v' = v" and sv: "same_view login s1 s1'" by simp_all
  obtain q s2 where c: "getTodosByProject login p s1 = (q, s2)"
    by (cases "getTodosByProject login p s1")
  obtain q' s2' where d: "getTodosByProject login p s1' = (q', s2')"
    by (cases "getTodosByProject login p s1'")
  from sv_getTodosByProject [OF sv, of p] c d
  have "q' = q" "same_view login s2 s2'" by simp_all
  with a b eq sv c d show ?thesis
    by (auto simp: get_project_def split: option.splits doc.splits sum.splits)
qed

lemma sv_list_todos:
  assumes "same_view login s s'"
  shows "fst (list_todos login p f s) = fst (list_todos login p f s')
     \<and> same_view login (snd (list_todos login p f s)) (snd (list_todos login p f s'))"
proof -
  obtain v s1 where a: "KV_get (project_key login p) s = (v, s1)"
    by (cases "KV_get (project_key login p) s")
  obtain v' s1' where b: "KV_get (project_key login p) s' = (v', s1')"
    by (cases "KV_get (project_key login p) s'")
  from sv_get [OF assms visible_project_key, of p] a b
  have eq: "v' = v" and sv: "same_view login s1 s1'" by simp_all
  obtain q s2 where c: "getTodosByProject login p s1 = (q, s2)"
    by (cases "getTodosByProject login p s1")
  obtain q' s2' where d: "getTodosByProject login p s1' = (q', s2')"
    by (cases "getTodosByProject login p s1'")
  from sv_getTodosByProject [OF sv, of p] c d
  have "q' = q" "same_view login s2 s2'" by simp_all
  with a b eq sv c d show ?thesis
    by (auto simp: list_todos_def split: option.splits status_filter.splits sum.splits)
qed

lemma sv_get_todo:
  assumes "same_view login s s'"
  shows "fst (get_todo login t s) = fst (get_todo login t s')
     \<and> same_view login (snd (get_todo login t s)) (snd (get_todo login t s'))"
  using sv_get [OF assms visible_todo_key, of t]
  by (auto simp: get_todo_def split: prod.splits option.splits doc.splits)

lemma sv_update_todo:
  assumes "same_view login s s'"
  shows "fst (update_todo login t ti d st pr e s) = fst (update_todo login t ti d st pr e s')
     \<and> same_view login (snd (update_todo login t ti d st pr e s))
          (snd (update_todo login t ti d st pr e s'))"
proof -
  obtain v s1 where a: "KV_get (todo_key login t) s = (v, s1)"
    by (cases "KV_get (todo_key login t) s")
  obtain v' s1' where b: "KV_get (todo_key login t) s' = (v', s1')"
    by (cases "KV_get (todo_key login t) s'")
  from sv_get [OF assms visible_todo_key, of t] a b
  have eq: "v' = v" and sv: "same_view login s1 s1'" by simp_all
  show ?thesis using a b eq sv
    by (auto simp: update_todo_def Let_def intro: sv_put split: option.splits doc.splits)
qed

lemma sv_create_todo:
  assumes "same_view login s s'"
  shows "fst (create_todo login p ti d pr e s) = fst (create_todo login p ti d pr e s')
     \<and> same_view login (snd (create_todo login p ti d pr e s))
          (snd (create_todo login p ti d pr e s'))"
proof -
  obtain v s1 where a: "KV_get (project_key login p) s = (v, s1)"
    by (cases "KV_get (project_key login p) s")
  obtain v' s1' where b: "KV_get (project_key login p) s' = (v', s1')"
    by (cases "KV_get (project_key login p) s'")
  from sv_get [OF assms visible_project_key, of p] a b
  have eq: "v' = v" and sv: "same_view login s1 s1'" by simp_all
  define td where "td = TodoDoc \<lparr>t_id = randomUUID e, t_projectId = p, t_title = ti,
                       t_description = (case d of None \<Rightarrow> [] | Some d \<Rightarrow> d),
                       t_status = Pending,
                       t_priority = (case pr of None \<Rightarrow> Medium | Some p \<Rightarrow> p),
                       t_createdAt = date1 e, t_updatedAt = date2 e\<rparr>"
  define k where "k = todo_key login (randomUUID e)"
  have sv2: "same_view login (KV_put k td s1) (KV_put k td s1')" using sv by (rule sv_put)
  obtain q s3 where c: "getTodoList login p (KV_put k td s1) = (q, s3)"
    by (cases "getTodoList login p (KV_put k td s1)")
  obtain q' s3' where c': "getTodoList login p (KV_put k td s1') = (q', s3')"
    by (cases "getTodoList login p (KV_put k td s1')")
  from sv_getTodoList [OF sv2, of p] c c'
  have "q' = q" "same_view login s3 s3'" by simp_all
  with a b eq sv c c' show ?thesis
    by (auto simp: create_todo_def Let_def td_def k_def intro: sv_put
        split: option.splits sum.splits)
qed

lemma sv_delete_todo:
  assumes "same_view login s s'"
  shows "fst (delete_todo login t s) = fst (delete_todo login t s')
     \<and> same_view login (snd (delete_todo login t s)) (snd (delete_todo login t s'))"
proof -
  obtain v s1 where a: "KV_get (todo_key login t) s = (v, s1)"
    by (cases "KV_get (todo_key login t) s")
  obtain v' s1' where b: "KV_get (todo_key login t) s' = (v', s1')"
    by (cases "KV_get (todo_key login t) s'")
  from sv_get [OF assms visible_todo_key, of t] a b
  have eq: "v' = v" and sv: "same_view login s1 s1'" by simp_all
  show ?thesis
  proof (cases v)
    case None
    with a b eq sv show ?thesis by (simp add: delete_todo_def)
  next
    case (Some dc)
    show ?thesis
    proof (cases dc)
      case (TodoDoc todo)
      obtain q s2 where c: "getTodoList login (t_projectId todo) s1 = (q, s2)"
        by (cases "getTodoList login (t_projectId todo) s1")
      obtain q' s2' where c': "getTodoList login (t_projectId todo) s1' = (q', s2')"
        by (cases "getTodoList login (t_projectId todo) s1'")
      from sv_getTodoList [OF sv, of "t_projectId todo"] c c'
      have "q' = q" "same_view login s2 s2'" by simp_all
      with a b eq Some TodoDoc c c' show ?thesis
        by (auto simp: delete_todo_def Let_def intro: sv_put sv_delete split: sum.splits)
    next
      case (ProjectDoc x)
      with a b eq sv Some show ?thesis by (simp add: delete_todo_def)
    next
      case (IdList x)
      with a b eq sv Some show ?thesis by (simp add: delete_todo_def)
    qed
  qed
qed

lemma sv_delete_project:
  assumes "same_view login s s'"
  shows "fst (delete_project login p s) = fst (delete_project login p s')
     \<and> same_view login (snd (delete_project login p s)) (snd (delete_project login p s'))"
proof -
  obtain v s1 where a: "KV_get (project_key login p) s = (v, s1)"
    by (cases "KV_get (project_key login p) s")
  obtain v' s1' where b: "KV_get (project_key login p) s' = (v', s1')"
    by (cases "KV_get (project_key login p) s'")
  from sv_get [OF assms visible_project_key, of p] a b
  have eq: "v' = v" and sv: "same_view login s1 s1'" by simp_all
  show ?thesis
  proof (cases v)
    case None
    with a b eq sv show ?thesis by (simp add: delete_project_def)
  next
    case (Some projectData)
    obtain q s2 where c: "getTodosByProject login p s1 = (q, s2)"
      by (cases "getTodosByProject login p s1")
    obtain q' s2' where c': "getTodosByProject login p s1' = (q', s2')"
      by (cases "getTodosByProject login p s1'")
    from sv_getTodosByProject [OF sv, of p] c c'
    have eq2: "q' = q" and sv2: "same_view login s2 s2'" by simp_all
    show ?thesis
    proof (cases q)
      case (Inl err)
      with a b eq Some c c' eq2 sv2 show ?thesis by (simp add: delete_project_def)
    next
      case (Inr todos)
      obtain u s3 where d: "delete_loop login p todos s2 = (u, s3)"
        by (cases "delete_loop login p todos s2")
      obtain u' s3' where d': "delete_loop login p todos s2' = (u', s3')"
        by (cases "delete_loop login p todos s2'")
      from sv_delete_loop [OF sv2, of p todos] d d'
      have eq3: "u' = u" and sv3: "same_view login s3 s3'" by simp_all
      show ?thesis
      proof (cases u)
        case (Inl err)
        with a b eq Some c c' eq2 Inr d d' eq3 sv3 show ?thesis
          by (simp add: delete_project_def)
      next
        case u: (Inr un)
        have sv4: "same_view login (KV_delete (project_key login p) s3)
                     (KV_delete (project_key login p) s3')"
          using sv3 by (rule sv_delete)
        obtain w s5 where g: "getProjectList login (KV_delete (project_key login p) s3) = (w, s5)"
          by (cases "getProjectList login (KV_delete (project_key login p) s3)")
        obtain w' s5' where g': "getProjectList login (KV_delete (project_key login p) s3') = (w', s5')"
          by (cases "getProjectList login (KV_delete (project_key login p) s3')")
        from sv_getProjectList [OF sv4] g g'
        have "w' = w" "same_view login s5 s5'" by simp_all
        with a b eq Some c c' eq2 Inr d d' eq3 u g g' show ?thesis
          by (auto simp: delete_project_def Let_def intro: sv_put split: sum.splits)
      qed
    qed
  qed
qed

lemma sv_handler:
  assumes "same_view login s s'"
  shows "fst (handler login c e s) = fst (handler login c e s')
     \<and> same_view login (snd (handler login c e s)) (snd (handler login c e s'))"
  using assms
  by (cases c)
    (simp_all add: sv_createProject sv_get_project_list sv_get_project sv_delete_project
      sv_create_todo sv_update_todo sv_delete_todo sv_get_todo sv_list_todos)

lemma sv_call_tool:
  assumes "same_view login s s'"
  shows "fst (call_tool login c e s) = fst (call_tool login c e s')
     \<and> same_view login (snd (call_tool login c e s)) (snd (call_tool login c e s'))"
  using assms sv_handler [OF assms, of c e] by (simp add: call_tool_def)

lemma same_view_run_purge:
  assumes b: "b \<in> ALLOWED_USERNAMES"
  shows "same_view b s s' \<Longrightarrow> same_view b (run calls s) (run (calls_of b calls) s')"
proof (induction calls arbitrary: s s')
  case Nil
  then show ?case by (simp add: calls_of_def)
next
  case (Cons call calls)
  obtain a c e where call: "call = (a, c, e)" by (cases call)
  show ?case
  proof (cases "a = b")
    case True
    from sv_call_tool [OF Cons.prems, of c e]
    have "same_view b (snd (call_tool b c e s)) (snd (call_tool b c e s'))" by simp
    then have "same_view b (run calls (snd (call_tool b c e s)))
                 (run (calls_of b calls) (snd (call_tool b c e s')))"
      by (rule Cons.IH)
    with call True show ?thesis by (simp add: calls_of_def)
  next
    case False
    obtain r s1 where r: "call_tool a c e s = (r, s1)" by (cases "call_tool a c e s")
    from steps_by_call_tool [OF r] have "same_view b s s1"
      using steps_by_same_view [of a b s s1] b False by (auto simp: same_view_refl)
    then have "same_view b s1 s'"
      using Cons.prems by (blast intro: same_view_sym same_view_trans)
    then have "same_view b (run calls s1) (run (calls_of b calls) s')" by (rule Cons.IH)
    with call False r show ?thesis by (simp add: calls_of_def)
  qed
qed

lemma call_tool_trace:
  "\<exists>ops. trace (snd (call_tool login c e s)) = trace s @ ops
     \<and> (\<forall>op \<in> set ops. (\<exists>v. op = Put project_list_literal v) \<or> sublist login (op_key op))"
proof -
  obtain r s1 where r: "call_tool login c e s = (r, s1)" by (cases "call_tool login c e s")
  from steps_by_call_tool [OF r] have "steps_by login s s1" by (auto simp: steps_by_refl)
  then obtain ops where "trace s1 = trace s @ ops" "\<forall>op \<in> set ops. permitted login op"
    by (auto simp: steps_by_def)
  then have "trace s1 = trace s @ ops
     \<and> (\<forall>op \<in> set ops. (\<exists>v. op = Put project_list_literal v) \<or> sublist login (op_key op))"
    using permitted_embeds by blast
  with r show ?thesis by auto
qed

text \<open>
  Whatever the other logins call, a login gets the responses it would get had only its
  own calls been made: after any sequence of calls, every tool of login \<open>b\<close>,
  \<open>get_project\<close> and \<open>get_project_list\<close> among them, answers as it does after the calls of
  \<open>b\<close> alone. So no project created under another login is ever returned to \<open>b\<close>.
\<close>

lemma responses_from_own_calls:
  "fst (call_tool b q e (run calls s)) = fst (call_tool b q e (run (calls_of b calls) s))"
proof (cases "b \<in> ALLOWED_USERNAMES")
  case True
  have "same_view b (run calls s) (run (calls_of b calls) s)"
    using True same_view_refl by (rule same_view_run_purge)
  then show ?thesis using sv_call_tool by blast
next
  case False
  then show ?thesis by (simp add: call_tool_def)
qed

lemma responses_from_own_calls_example:
  "fst (call_tool ''hubiao1688'' (GetProject ''p-1'') project_env (run shared_session empty_kv))
     = Inr (Message ''Project with ID p-1 not found'')
   \<and> fst (call_tool ''hubiao1688'' GetProjectList project_env (run shared_session empty_kv))
     = Inr (ProjectsJson [])
   \<and> store (run shared_session empty_kv) (project_key ''ermao1688'' ''p-1'')
     = Some (ProjectDoc \<lparr>p_id = ''p-1'', p_name = ''Launch'', p_description = ''v1'',
                          p_createdAt = ''2025-01-01T00:00:00.000Z'',
                          p_updatedAt = ''2025-01-01T00:00:00.001Z''\<rparr>)"
  using responses_from_own_calls [of "''hubiao1688''" "GetProject ''p-1''" project_env
      shared_session empty_kv]
    responses_from_own_calls [of "''hubiao1688''" GetProjectList project_env
      shared_session empty_kv]
  by (simp add: calls_of_def shared_session_def sample_defs tool_defs kv_defs key_defs Let_def)

text \<open>
  C9. The claim says that every record key and index key read or written on behalf of an
  owner embeds that owner's login. On the empty namespace, \<open>createProject\<close> by one login
  followed by \<open>createProject\<close> by another performs the six operations below: each call
  writes the Project Index under the same uninterpolated key, which contains neither
  login, and the second write replaces the list the first one wrote. The code does not
  scope this key by owner.
\<close>

theorem project_index_key_shared:
  "trace (run [(''ermao1688'', CreateProject ''Launch'' (Some ''v1''), project_env),
               (''hubiao1688'', CreateProject ''Other'' None,
                  \<lparr>randomUUID = ''p-2'', date1 = ''2025-02-01T00:00:00.000Z'',
                    date2 = ''2025-02-01T00:00:00.000Z''\<rparr>)] empty_kv)
     = [Put ''project:p-1:user-ermao1688''
          (ProjectDoc \<lparr>p_id = ''p-1'', p_name = ''Launch'', p_description = ''v1'',
                       p_createdAt = ''2025-01-01T00:00:00.000Z'',
                       p_updatedAt = ''2025-01-01T00:00:00.001Z''\<rparr>),
        Get ''project:user-ermao1688:list'',
        Put ''project:user-${this.props!.login}:list'' (IdList [''p-1'']),
        Put ''project:p-2:user-hubiao1688''
          (ProjectDoc \<lparr>p_id = ''p-2'', p_name = ''Other'', p_description = [],
                       p_createdAt = ''2025-02-01T00:00:00.000Z'',
                       p_updatedAt = ''2025-02-01T00:00:00.000Z''\<rparr>),
        Get ''project:user-hubiao1688:list'',
        Put ''project:user-${this.props!.login}:list'' (IdList [''p-2''])]
   \<and> \<not> sublist ''ermao1688'' ''project:user-${this.props!.login}:list''
   \<and> \<not> sublist ''hubiao1688'' ''project:user-${this.props!.login}:list''
   \<and> store (run [(''ermao1688'', CreateProject ''Launch'' (Some ''v1''), project_env),
                   (''hubiao1688'', CreateProject ''Other'' None,
                      \<lparr>randomUUID = ''p-2'', date1 = ''2025-02-01T00:00:00.000Z'',
                        date2 = ''2025-02-01T00:00:00.000Z''\<rparr>)] empty_kv)
         ''project:user-${this.props!.login}:list'' = Some (IdList [''p-2''])"
  by (simp add: sample_defs tool_defs kv_defs key_defs Let_def sublist_code)

section \<open>Stored documents keep their shape\<close>

text \<open>
  Every call keeps the namespace well shaped, so in a session that starts from the empty
  namespace no tool ever parses a document of another shape than the one it expects:
  \<open>DecodeFault\<close> does not occur there.
\<close>

lemma literal_neq_keys:
  assumes "login \<in> ALLOWED_USERNAMES"
  shows "project_list_literal \<noteq> project_key login x"
    and "project_list_literal \<noteq> todos_key login x"
    and "project_list_literal \<noteq> todo_key login x"
    and "project_list_literal \<noteq> project_list_key login"
  using literal_not_visible [of login] assms
    owned_project_key [of login x] owned_todos_key [of login x] owned_todo_key [of login x]
  by (auto simp: allowed_colon_free allowed_not_placeholder visible_to_def)

lemma ws_get: "well_shaped s \<Longrightarrow> well_shaped (snd (KV_get k s))"
  by (simp add: well_shaped_def KV_get_def)

lemma ws_delete: "well_shaped s \<Longrightarrow> well_shaped (KV_delete k s)"
  by (simp add: well_shaped_def KV_delete_def)

lemma ws_put_project:
  assumes "well_shaped s" "login \<in> ALLOWED_USERNAMES"
  shows "well_shaped (KV_put (project_key login x) (ProjectDoc p) s)"
  using assms project_key_neq_todos_key [of login x] todo_key_neq_project_key [of _ _ login x]
    project_key_neq_project_list_key [of login x]
  by (simp add: well_shaped_def KV_put_def allowed_colon_free) metis

lemma ws_put_todos:
  assumes "well_shaped s" "login \<in> ALLOWED_USERNAMES"
  shows "well_shaped (KV_put (todos_key login x) (IdList l) s)"
proof -
  have "todos_key login x \<noteq> project_key l' y" if "l' \<in> ALLOWED_USERNAMES" for l' y
    using project_key_neq_todos_key [of l' y login x] that by (auto simp: allowed_colon_free)
  then show ?thesis
    using assms todo_key_neq_todos_key [of _ _ login x] todos_key_neq_project_list_key [of login x]
    by (simp add: well_shaped_def KV_put_def) metis
qed

lemma ws_put_todo:
  assumes "well_shaped s"
  shows "well_shaped (KV_put (todo_key login x) (TodoDoc t) s)"
  using assms todo_key_neq_project_key [of login x] todo_key_neq_todos_key [of login x]
    todo_key_neq_project_list_key [of login x]
  by (simp add: well_shaped_def KV_put_def) metis

lemma ws_put_literal:
  assumes "well_shaped s"
  shows "well_shaped (KV_put project_list_literal (IdList l) s)"
  using assms literal_neq_keys
  by (simp add: well_shaped_def KV_put_def) metis

lemma ws_shapes:
  assumes "well_shaped s" "login \<in> ALLOWED_USERNAMES"
  shows "is_project (store s (project_key login x))"
    and "is_ids (store s (todos_key login x))"
    and "is_todo (store s (todo_key login x))"
    and "is_ids (store s (project_list_key login))"
  using assms by (simp_all add: well_shaped_def)

lemma ws_getProjectList:
  assumes "well_shaped s" "login \<in> ALLOWED_USERNAMES"
  shows "fst (getProjectList login s) \<noteq> Inl DecodeFault
     \<and> well_shaped (snd (getProjectList login s))"
  using ws_shapes(4) [OF assms] ws_get [OF assms(1), of "project_list_key login"]
  by (auto simp: getProjectList_def KV_get_def split: option.splits doc.splits)

lemma ws_getTodoList:
  assumes "well_shaped s" "login \<in> ALLOWED_USERNAMES"
  shows "fst (getTodoList login p s) \<noteq> Inl DecodeFault
     \<and> well_shaped (snd (getTodoList login p s))"
  using ws_shapes(2) [OF assms, of p] ws_get [OF assms(1), of "todos_key login p"]
  by (auto simp: getTodoList_def KV_get_def split: option.splits doc.splits)

lemma ws_todos_loop:
  assumes l: "login \<in> ALLOWED_USERNAMES"
  shows "well_shaped s \<Longrightarrow>
     fst (todos_loop login ids acc s) \<noteq> Inl DecodeFault
     \<and> well_shaped (snd (todos_loop login ids acc s))"
proof (induction ids arbitrary: acc s)
  case Nil
  then show ?case by simp
next
  case (Cons i ids)
  have w: "well_shaped (snd (KV_get (todo_key login i) s))" using Cons.prems by (rule ws_get)
  show ?case
    using ws_shapes(3) [OF Cons.prems l, of i] Cons.IH [OF w]
    by (auto simp: KV_get_def split: option.splits doc.splits)
qed

lemma ws_projects_loop:
  assumes l: "login \<in> ALLOWED_USERNAMES"
  shows "well_shaped s \<Longrightarrow>
     fst (projects_loop login ids acc s) \<noteq> Inl DecodeFault
     \<and> well_shaped (snd (projects_loop login ids acc s))"
proof (induction ids arbitrary: acc s)
  case Nil
  then show ?case by simp
next
  case (Cons i ids)
  have w: "well_shaped (snd (KV_get (project_key login i) s))" using Cons.prems by (rule ws_get)
  show ?case
    using ws_shapes(1) [OF Cons.prems l, of i] Cons.IH [OF w]
    by (auto simp: KV_get_def split: option.splits doc.splits)
qed

lemma ws_getTodosByProject:
  assumes "well_shaped s" "login \<in> ALLOWED_USERNAMES"
  shows "fst (getTodosByProject login p s) \<noteq> Inl DecodeFault
     \<and> well_shaped (snd (getTodosByProject login p s))"
proof -
  obtain r s1 where a: "getTodoList login p s = (r, s1)" by (cases "getTodoList login p s")
  with ws_getTodoList [OF assms, of p] have "r \<noteq> Inl DecodeFault" "well_shaped s1" by simp_all
  then show ?thesis using a ws_todos_loop [OF assms(2), of s1]
    by (auto simp: getTodosByProject_def split: sum.splits)
qed

lemma ws_deleteTodo:
  assumes "well_shaped s" "login \<in> ALLOWED_USERNAMES"
  shows "fst (deleteTodo login p t s) \<noteq> Inl DecodeFault
     \<and> well_shaped (snd (deleteTodo login p t s))"
proof -
  obtain r s1 where a: "getTodoList login p s = (r, s1)" by (cases "getTodoList login p s")
  with ws_getTodoList [OF assms, of p] have "r \<noteq> Inl DecodeFault" "well_shaped s1" by simp_all
  then show ?thesis using a assms(2)
    by (auto simp: deleteTodo_def ws_put_todos split: sum.splits)
qed

lemma ws_delete_loop:
  assumes l: "login \<in> ALLOWED_USERNAMES"
  shows "well_shaped s \<Longrightarrow>
     fst (delete_loop login p todos s) \<noteq> Inl DecodeFault
     \<and> well_shaped (snd (delete_loop login p todos s))"
proof (induction todos arbitrary: s)
  case Nil
  then show ?case by simp
next
  case (Cons t todos)
  obtain r s1 where a: "deleteTodo login p (t_id t) s = (r, s1)"
    by (cases "deleteTodo login p (t_id t) s")
  with ws_deleteTodo [OF Cons.prems l, of p "t_id t"]
  have "r \<noteq> Inl DecodeFault" "well_shaped s1" by simp_all
  then show ?case using a Cons.IH [of s1] by (auto split: sum.splits)
qed

lemma ws_createProject:
  assumes "well_shaped s" "login \<in> ALLOWED_USERNAMES"
  shows "fst (createProject login name d e s) \<noteq> Inl DecodeFault
     \<and> well_shaped (snd (createProject login name d e s))"
proof -
  define pr where "pr = \<lparr>p_id = randomUUID e, p_name = name,
                     p_description = (case d of None \<Rightarrow> [] | Some d \<Rightarrow> d),
                     p_createdAt = date1 e, p_updatedAt = date2 e\<rparr>"
  define s0 where "s0 = KV_put (project_key login (randomUUID e)) (ProjectDoc pr) s"
  have w0: "well_shaped s0" unfolding s0_def using assms by (rule ws_put_project)
  obtain r s1 where a: "getProjectList login s0 = (r, s1)" by (cases "getProjectList login s0")
  with ws_getProjectList [OF w0 assms(2)] have "r \<noteq> Inl DecodeFault" "well_shaped s1"
    by simp_all
  then show ?thesis using a
    by (auto simp: createProject_def Let_def pr_def s0_def ws_put_literal split: sum.splits)
qed

lemma ws_get_project_list:
  assumes "well_shaped s" "login \<in> ALLOWED_USERNAMES"
  shows "fst (get_project_list login s) \<noteq> Inl DecodeFault
     \<and> well_shaped (snd (get_project_list login s))"
proof -
  obtain r s1 where a: "getProjectList login s = (r, s1)" by (cases "getProjectList login s")
  with ws_getProjectList [OF assms] have r: "r \<noteq> Inl DecodeFault" and w1: "well_shaped s1"
    by simp_all
  show ?thesis
  proof (cases r)
    case (Inl err)
    with a r w1 show ?thesis by (simp add: get_project_list_def)
  next
    case (Inr l)
    obtain q s2 where b: "projects_loop login l [] s1 = (q, s2)"
      by (cases "projects_loop login l [] s1")
    with ws_projects_loop [OF assms(2) w1, of l "[]"]
    have "q \<noteq> Inl DecodeFault" "well_shaped s2" by simp_all
    with a Inr b show ?thesis by (auto simp: get_project_list_def split: sum.splits)
  qed
qed

lemma ws_get_project:
  assumes "well_shaped s" "login \<in> ALLOWED_USERNAMES"
  shows "fst (get_project login p s) \<noteq> Inl DecodeFault
     \<and> well_shaped (snd (get_project login p s))"
proof -
  define s1 where "s1 = snd (KV_get (project_key login p) s)"
  have w1: "well_shaped s1" unfolding s1_def using assms(1) by (rule ws_get)
  have g: "KV_get (project_key login p) s = (store s (project_key login p), s1)"
    by (simp add: s1_def KV_get_def)
  show ?thesis
    using ws_shapes(1) [OF assms, of p] w1 ws_getTodosByProject [OF w1 assms(2), of p]
    by (auto simp: get_project_def g split: option.splits doc.splits sum.splits prod.splits)
qed

lemma ws_list_todos:
  assumes "well_shaped s" "login \<in> ALLOWED_USERNAMES"
  shows "fst (list_todos login p f s) \<noteq> Inl DecodeFault
     \<and> well_shaped (snd (list_todos login p f s))"
proof -
  define s1 where "s1 = snd (KV_get (project_key login p) s)"
  have w1: "well_shaped s1" unfolding s1_def using assms(1) by (rule ws_get)
  have g: "KV_get (project_key login p) s = (store s (project_key login p), s1)"
    by (simp add: s1_def KV_get_def)
  show ?thesis
    using w1 ws_getTodosByProject [OF w1 assms(2), of p]
    by (auto simp: list_todos_def g
        split: option.splits status_filter.splits sum.splits prod.splits)
qed

lemma ws_get_todo:
  assumes "well_shaped s" "login \<in> ALLOWED_USERNAMES"
  shows "fst (get_todo login t s) \<noteq> Inl DecodeFault
     \<and> well_shaped (snd (get_todo login t s))"
  using ws_shapes(3) [OF assms, of t] ws_get [OF assms(1), of "todo_key login t"]
  by (auto simp: get_todo_def KV_get_def split: option.splits doc.splits)

lemma ws_update_todo:
  assumes "well_shaped s" "login \<in> ALLOWED_USERNAMES"
  shows "fst (update_todo login t ti d st pr e s) \<noteq> Inl DecodeFault
     \<and> well_shaped (snd (update_todo login t ti d st pr e s))"
proof -
  define s1 where "s1 = snd (KV_get (todo_key login t) s)"
  have w1: "well_shaped s1" unfolding s1_def using assms(1) by (rule ws_get)
  have g: "KV_get (todo_key login t) s = (store s (todo_key login t), s1)"
    by (simp add: s1_def KV_get_def)
  show ?thesis
    using ws_shapes(3) [OF assms, of t] w1
    by (auto simp: update_todo_def g Let_def ws_put_todo split: option.splits doc.splits)
qed

lemma ws_create_todo:
  assumes "well_shaped s" "login \<in> ALLOWED_USERNAMES"
  shows "fst (create_todo login p ti d pr e s) \<noteq> Inl DecodeFault
     \<and> well_shaped (snd (create_todo login p ti d pr e s))"
proof -
  define s1 where "s1 = snd (KV_get (project_key login p) s)"
  have w1: "well_shaped s1" unfolding s1_def using assms(1) by (rule ws_get)
  have g: "KV_get (project_key login p) s = (store s (project_key login p), s1)"
    by (simp add: s1_def KV_get_def)
  define td where "td = \<lparr>t_id = randomUUID e, t_projectId = p, t_title = ti,
                       t_description = (case d of None \<Rightarrow> [] | Some d \<Rightarrow> d),
                       t_status = Pending,
                       t_priority = (case pr of None \<Rightarrow> Medium | Some p \<Rightarrow> p),
                       t_createdAt = date1 e, t_updatedAt = date2 e\<rparr>"
  define s2 where "s2 = KV_put (todo_key login (randomUUID e)) (TodoDoc td) s1"
  have w2: "well_shaped s2" unfolding s2_def using w1 by (rule ws_put_todo)
  obtain r s3 where a: "getTodoList login p s2 = (r, s3)" by (cases "getTodoList login p s2")
  with ws_getTodoList [OF w2 assms(2), of p] have "r \<noteq> Inl DecodeFault" "well_shaped s3"
    by simp_all
  then show ?thesis using a w1 assms(2)
    by (auto simp: create_todo_def g Let_def td_def s2_def ws_put_todos
        split: option.splits sum.splits)
qed

lemma ws_delete_todo:
  assumes "well_shaped s" "login \<in> ALLOWED_USERNAMES"
  shows "fst (delete_todo login t s) \<noteq> Inl DecodeFault
     \<and> well_shaped (snd (delete_todo login t s))"
proof -
  define s1 where "s1 = snd (KV_get (todo_key login t) s)"
  have w1: "well_shaped s1" unfolding s1_def using assms(1) by (rule ws_get)
  have g: "KV_get (todo_key login t) s = (store s (todo_key login t), s1)"
    by (simp add: s1_def KV_get_def)
  have rest: "fst (getTodoList login q s1) \<noteq> Inl DecodeFault
      \<and> well_shaped (snd (getTodoList login q s1))" for q
    using w1 assms(2) by (rule ws_getTodoList)
  show ?thesis
  proof (cases "store s (todo_key login t)")
    case None
    with g w1 show ?thesis by (simp add: delete_todo_def)
  next
    case (Some dc)
    with ws_shapes(3) [OF assms, of t] obtain todo where dc: "dc = TodoDoc todo"
      by (cases dc) simp_all
    obtain r s2 where a: "getTodoList login (t_projectId todo) s1 = (r, s2)"
      by (cases "getTodoList login (t_projectId todo) s1")
    with rest [of "t_projectId todo"] have "r \<noteq> Inl DecodeFault" "well_shaped s2" by simp_all
    then show ?thesis using a g Some dc assms(2)
      by (auto simp: delete_todo_def Let_def ws_put_todos ws_delete split: sum.splits)
  qed
qed

lemma ws_delete_project:
  assumes "well_shaped s" "login \<in> ALLOWED_USERNAMES"
  shows "fst (delete_project login p s) \<noteq> Inl DecodeFault
     \<and> well_shaped (snd (delete_project login p s))"
proof -
  define s1 where "s1 = snd (KV_get (project_key login p) s)"
  have w1: "well_shaped s1" unfolding s1_def using assms(1) by (rule ws_get)
  have g: "KV_get (project_key login p) s = (store s (project_key login p), s1)"
    by (simp add: s1_def KV_get_def)
  obtain q s2 where c: "getTodosByProject login p s1 = (q, s2)"
    by (cases "getTodosByProject login p s1")
  with ws_getTodosByProject [OF w1 assms(2), of p]
  have q: "q \<noteq> Inl DecodeFault" and w2: "well_shaped s2" by simp_all
  show ?thesis
  proof (cases "store s (project_key login p)")
    case None
    with g w1 show ?thesis by (simp add: delete_project_def)
  next
    case (Some projectData)
    show ?thesis
    proof (cases q)
      case (Inl err)
      with g Some c q w2 show ?thesis by (simp add: delete_project_def)
    next
      case (Inr todos)
      obtain u s3 where d: "delete_loop login p todos s2 = (u, s3)"
        by (cases "delete_loop login p todos s2")
      with ws_delete_loop [OF assms(2) w2, of p todos]
      have u: "u \<noteq> Inl DecodeFault" and w3: "well_shaped s3" by simp_all
      have w4: "well_shaped (KV_delete (project_key login p) s3)" using w3 by (rule ws_delete)
      obtain w s5 where h: "getProjectList login (KV_delete (project_key login p) s3) = (w, s5)"
        by (cases "getProjectList login (KV_delete (project_key login p) s3)")
      with ws_getProjectList [OF w4 assms(2)]
      have "w \<noteq> Inl DecodeFault" "well_shaped s5" by simp_all
      with g Some c Inr d u w3 h show ?thesis
        by (auto simp: delete_project_def Let_def ws_put_literal split: sum.splits)
    qed
  qed
qed

lemma ws_call_tool:
  assumes "well_shaped s"
  shows "fst (call_tool login c e s) \<noteq> Inl DecodeFault
     \<and> well_shaped (snd (call_tool login c e s))"
proof (cases "login \<in> ALLOWED_USERNAMES \<and> valid_args c")
  case True
  then have l: "login \<in> ALLOWED_USERNAMES" by simp
  have "fst (handler login c e s) \<noteq> Inl DecodeFault \<and> well_shaped (snd (handler login c e s))"
    using assms l
    by (cases c)
      (simp_all add: ws_createProject ws_get_project_list ws_get_project ws_delete_project
        ws_create_todo ws_update_todo ws_delete_todo ws_get_todo ws_list_todos)
  with True show ?thesis by (simp add: call_tool_def)
next
  case False
  with assms show ?thesis by (auto simp: call_tool_def)
qed

lemma well_shaped_run: "well_shaped s \<Longrightarrow> well_shaped (run calls s)"
proof (induction calls arbitrary: s)
  case Nil
  then show ?case by simp
next
  case (Cons call calls)
  obtain login c e where call: "call = (login, c, e)" by (cases call)
  from ws_call_tool [OF Cons.prems, of login c e]
  have "well_shaped (snd (call_tool login c e s))" by simp
  then have "well_shaped (run calls (snd (call_tool login c e s)))" by (rule Cons.IH)
  with call show ?case by simp
qed

lemma well_shaped_empty: "well_shaped empty_kv"
  by (simp add: well_shaped_def empty_kv_def)

lemma no_decode_fault_from_empty:
  "fst (call_tool login c e (run calls empty_kv)) \<noteq> Inl DecodeFault"
  using ws_call_tool [OF well_shaped_run [OF well_shaped_empty]] by simp

end
